theory Spec2Isabelle
  imports Complex_Main "HOL-Library.Word"
begin

section \<open>Values of the host language\<close>

text \<open>
  A JavaScript string is a sequence of UTF-16 code units, a \<open>Uint8Array\<close> a sequence of
  bytes and an \<open>Int16Array\<close> a sequence of 16-bit two's complement integers.
  Numbers that hold audio samples and times are modelled as reals: every operation the
  code performs on them (scaling by the power of two 32768, \<open>Math.max\<close>, reading a
  32-bit float as a double) is exact on the finite values concerned, and the rounding of
  a sum of times is outside the model.
\<close>

type_synonym byte = "8 word"
type_synonym int16 = "16 word"
type_synonym code_unit = "16 word"
type_synonym jsstring = "code_unit list"

datatype error = InvalidCharacterError | RangeError | NotSupportedError
  | InvalidStateError | TypeError

definition js :: "string \<Rightarrow> jsstring" where
  "js s = map (\<lambda>c. of_nat (of_char c)) s"

section \<open>The platform's \<open>btoa\<close> and \<open>atob\<close>\<close>

text \<open>
  \<open>btoa\<close> and \<open>atob\<close> are functions of the browser, specified by the HTML standard:
  \<open>btoa\<close> fails with InvalidCharacterError on a code unit above 255 and otherwise
  returns the base64 encoding (RFC 4648, with padding) of the code units read as bytes;
  \<open>atob\<close> is the standard's forgiving-base64 decode: ASCII whitespace is removed, up
  to two trailing \<open>=\<close> are removed when the length is a multiple of four, a remaining
  length of 1 modulo 4 or a character outside the alphabet fails, and the 6-bit groups
  are reassembled into bytes, the left-over bits of the last group being dropped.
\<close>

definition b64_code :: "nat \<Rightarrow> nat" where
  "b64_code i =
     (if i < 26 then 65 + i
      else if i < 52 then 97 + (i - 26)
      else if i < 62 then 48 + (i - 52)
      else if i = 62 then 43 else 47)"

definition b64_char :: "nat \<Rightarrow> code_unit" where
  "b64_char i = of_nat (b64_code i)"

definition b64_index :: "code_unit \<Rightarrow> nat option" where
  "b64_index c =
     (let n = unat c in
      if 65 \<le> n \<and> n \<le> 90 then Some (n - 65)
      else if 97 \<le> n \<and> n \<le> 122 then Some (n - 71)
      else if 48 \<le> n \<and> n \<le> 57 then Some (n + 4)
      else if n = 43 then Some 62
      else if n = 47 then Some 63
      else None)"

fun b64_sextets :: "nat list \<Rightarrow> nat list" where
  "b64_sextets (a # b # c # rest) =
     [a div 4, (a mod 4) * 16 + b div 16, (b mod 16) * 4 + c div 64, c mod 64]
       @ b64_sextets rest"
| "b64_sextets [a, b] = [a div 4, (a mod 4) * 16 + b div 16, (b mod 16) * 4]"
| "b64_sextets [a] = [a div 4, (a mod 4) * 16]"
| "b64_sextets [] = []"

definition b64_padding :: "nat \<Rightarrow> nat" where
  "b64_padding n = (3 - n mod 3) mod 3"

definition btoa :: "jsstring \<Rightarrow> error + jsstring" where
  "btoa s =
     (if list_ex (\<lambda>c. 255 < unat c) s then Inl InvalidCharacterError
      else Inr (map b64_char (b64_sextets (map unat s))
                  @ replicate (b64_padding (length s)) 61))"

definition ascii_whitespace :: "code_unit \<Rightarrow> bool" where
  "ascii_whitespace c = (unat c \<in> {9, 10, 12, 13, 32})"

definition strip_padding :: "jsstring \<Rightarrow> jsstring" where
  "strip_padding d =
     (if length d mod 4 = 0 \<and> d \<noteq> [] \<and> unat (last d) = 61
      then (let d' = butlast d in if d' \<noteq> [] \<and> unat (last d') = 61 then butlast d' else d')
      else d)"

fun b64_indices :: "jsstring \<Rightarrow> nat list option" where
  "b64_indices [] = Some []"
| "b64_indices (c # cs) =
     (case b64_index c of
        None \<Rightarrow> None
      | Some i \<Rightarrow> (case b64_indices cs of None \<Rightarrow> None | Some is \<Rightarrow> Some (i # is)))"

fun b64_octets :: "nat list \<Rightarrow> nat list" where
  "b64_octets (w # x # y # z # rest) =
     [w * 4 + x div 16, (x mod 16) * 16 + y div 4, (y mod 4) * 64 + z] @ b64_octets rest"
| "b64_octets [w, x, y] = [w * 4 + x div 16, (x mod 16) * 16 + y div 4]"
| "b64_octets [w, x] = [w * 4 + x div 16]"
| "b64_octets [w] = []"
| "b64_octets [] = []"

definition atob :: "jsstring \<Rightarrow> error + jsstring" where
  "atob dat =
     (let d = strip_padding (filter (\<lambda>c. \<not> ascii_whitespace c) dat) in
      if length d mod 4 = 1 then Inl InvalidCharacterError
      else (case b64_indices d of
              None \<Rightarrow> Inl InvalidCharacterError
            | Some is \<Rightarrow> Inr (map of_nat (b64_octets is))))"

section \<open>Utility functions for audio\<close>

text \<open>
  \<open>decode\<close> (App.tsx, lines 8 to 16): \<open>atob\<close>, then each code unit stored into a
  \<open>Uint8Array\<close>, which keeps its low eight bits.
\<close>

definition decode :: "jsstring \<Rightarrow> error + byte list" where
  "decode base64 =
     (case atob base64 of
        Inl e \<Rightarrow> Inl e
      | Inr binaryString \<Rightarrow> Inr (map ucast binaryString))"

text \<open>
  \<open>encode\<close> (lines 18 to 25): one code unit per byte through \<open>String.fromCharCode\<close>,
  then \<open>btoa\<close>.
\<close>

definition encode :: "byte list \<Rightarrow> error + jsstring" where
  "encode bytes = btoa (map ucast bytes)"

text \<open>
  The assignment \<open>int16[i] = x\<close> to an \<open>Int16Array\<close> element converts the number with
  the language's ToInt16: truncate towards zero, then reduce modulo \<open>2^16\<close> into the
  signed range. The loop of \<open>createBlob\<close> (lines 48 to 51) is \<open>toInt16\<close>, the loop of
  \<open>decodeAudioData\<close> over one channel (lines 39 to 41) is \<open>toFloat\<close>.
\<close>

definition js_trunc :: "real \<Rightarrow> int" where
  "js_trunc x = (if 0 \<le> x then \<lfloor>x\<rfloor> else \<lceil>x\<rceil>)"

definition ToInt16 :: "real \<Rightarrow> int16" where
  "ToInt16 x = word_of_int (js_trunc x)"

definition toInt16 :: "real list \<Rightarrow> int16 list" where
  "toInt16 data = map (\<lambda>x. ToInt16 (x * 32768)) data"

definition toFloat :: "int16 list \<Rightarrow> real list" where
  "toFloat dataInt16 = map (\<lambda>w. real_of_int (sint w) / 32768) dataInt16"

text \<open>
  \<open>new Uint8Array(int16.buffer)\<close> and \<open>new Int16Array(data.buffer)\<close> are two views of
  the same bytes, in the byte order of the platform (little-endian). The second
  constructor fails with RangeError on an odd number of bytes; \<open>decodeAudioData\<close>
  checks for it before calling \<open>int16_of_bytes\<close>.
\<close>

definition bytes_of_int16 :: "int16 list \<Rightarrow> byte list" where
  "bytes_of_int16 ws = concat (map (\<lambda>w. [ucast w, ucast (drop_bit 8 w)]) ws)"

fun int16_of_bytes :: "byte list \<Rightarrow> int16 list" where
  "int16_of_bytes (lo # hi # rest) = (word_cat hi lo) # int16_of_bytes rest"
| "int16_of_bytes [b] = []"
| "int16_of_bytes [] = []"

record AudioBuffer =
  buffer_sampleRate :: nat
  buffer_length :: nat
  buffer_channels :: "real list list"

definition duration :: "AudioBuffer \<Rightarrow> real" where
  "duration b = real (buffer_length b) / real (buffer_sampleRate b)"

text \<open>
  \<open>decodeAudioData\<close> (lines 27 to 44). \<open>createBuffer\<close> fails with NotSupportedError
  when the number of channels or the number of frames is zero; a fractional
  \<open>frameCount\<close> is truncated by \<open>createBuffer\<close>, and the writes of the loop beyond the
  buffer's length are ignored by the \<open>Float32Array\<close>.
\<close>

definition decodeAudioData :: "byte list \<Rightarrow> nat \<Rightarrow> nat \<Rightarrow> error + AudioBuffer" where
  "decodeAudioData dat sampleRate numChannels =
     (if odd (length dat) then Inl RangeError
      else
        let dataInt16 = int16_of_bytes dat;
            frameCount = length dataInt16 div numChannels
        in if numChannels = 0 \<or> frameCount = 0 then Inl NotSupportedError
           else Inr \<lparr>buffer_sampleRate = sampleRate,
                     buffer_length = frameCount,
                     buffer_channels =
                       map (\<lambda>channel.
                              toFloat (map (\<lambda>i. dataInt16 ! (i * numChannels + channel))
                                         [0..<frameCount]))
                           [0..<numChannels]\<rparr>)"

record Blob =
  blob_data :: "jsstring option"
  blob_mimeType :: "jsstring option"

text \<open>\<open>createBlob\<close> (lines 46 to 56).\<close>

definition createBlob :: "real list \<Rightarrow> error + Blob" where
  "createBlob dat =
     (case encode (bytes_of_int16 (toInt16 dat)) of
        Inl e \<Rightarrow> Inl e
      | Inr t \<Rightarrow> Inr \<lparr>blob_data = Some t,
                       blob_mimeType = Some (js ''audio/pcm;rate=16000'')\<rparr>)"

section \<open>Messages of the server\<close>

text \<open>
  A \<open>LiveServerMessage\<close> as the handler reads it. Every field the library declares
  optional is an option here; the fields the handler never reads are left out.
\<close>

record Part =
  inlineData :: "Blob option"

record Content =
  parts :: "Part list option"

record Transcription =
  transcription_text :: "jsstring option"

record LiveServerContent =
  modelTurn :: "Content option"
  outputTranscription :: "Transcription option"
  inputTranscription :: "Transcription option"
  turnComplete :: "bool option"
  interrupted :: "bool option"

record LiveServerMessage =
  serverContent :: "LiveServerContent option"

section \<open>The state of the component\<close>

text \<open>
  Modelled from the spec: \<open>types.ts\<close> is not among the sources; it declares
  \<open>ConnectionState\<close> and \<open>TranscriptionEntry\<close>. Section 4.6 of the specification names
  the four states, section 3 the fields of an entry; the two roles are the literals the
  code writes.
\<close>

datatype ConnectionState = DISCONNECTED | CONNECTING | CONNECTED | ERROR

datatype Role = user | model

record TranscriptionEntry =
  role :: Role
  entry_text :: jsstring
  timestamp :: nat

text \<open>
  An \<open>AudioBufferSourceNode\<close> of the output context: the duration of its buffer, the
  time given to \<open>start\<close> (none before the call) and whether \<open>stop\<close> has been called.
\<close>

record SourceNode =
  node_duration :: real
  node_start :: "real option"
  node_stopped :: bool

text \<open>
  The component's React state (\<open>connectionState\<close>, \<open>transcriptions\<close>, \<open>isListening\<close>),
  its refs, and the objects the refs point into: every source node the output context
  has created (a node's identity is its index), the connections closed, the microphone
  streams whose tracks were stopped, and the texts sent on a connection. A state
  setter called several times in one event leaves the value of its last call.
\<close>

record app_state =
  connectionState :: ConnectionState
  transcriptions :: "TranscriptionEntry list"
  isListening :: bool
  nextStartTimeRef :: real
  activeSourcesRef :: "nat list"
  sessionRef :: "nat option"
  micStreamRef :: "nat option"
  currentOutputTranscriptionRef :: jsstring
  currentInputTranscriptionRef :: jsstring
  nodes :: "SourceNode list"
  closedSessions :: "nat set"
  stoppedStreams :: "nat set"
  sentTexts :: "(nat \<times> jsstring) list"

definition initial_state :: app_state where
  "initial_state =
     \<lparr>connectionState = DISCONNECTED, transcriptions = [], isListening = False,
      nextStartTimeRef = 0, activeSourcesRef = [], sessionRef = None, micStreamRef = None,
      currentOutputTranscriptionRef = [], currentInputTranscriptionRef = [],
      nodes = [], closedSessions = {}, stoppedStreams = {}, sentTexts = []\<rparr>"

text \<open>
  What an event reads from outside: \<open>outCtx.currentTime\<close> and \<open>new Date()\<close>. The
  calls of \<open>new Date()\<close> within one event read the same instant.
\<close>

record clock =
  currentTime :: real
  date :: nat

section \<open>Stopping, sending text, and the callbacks of the connection\<close>

text \<open>
  \<open>source.stop()\<close> fails with InvalidStateError on a node whose \<open>start\<close> has not been
  called, and may be called again on a node already stopped.
\<close>

definition node_stop :: "nat \<Rightarrow> SourceNode list \<Rightarrow> error + SourceNode list" where
  "node_stop i ns =
     (if i < length ns \<and> node_start (ns ! i) \<noteq> None
      then Inr (ns[i := (ns ! i)\<lparr>node_stopped := True\<rparr>])
      else Inl InvalidStateError)"

fun stop_each :: "nat list \<Rightarrow> SourceNode list \<Rightarrow> error + SourceNode list" where
  "stop_each [] ns = Inr ns"
| "stop_each (i # is) ns =
     (case node_stop i ns of Inl e \<Rightarrow> Inl e | Inr ns' \<Rightarrow> stop_each is ns')"

text \<open>\<open>stopConversation\<close> (lines 81 to 94).\<close>

definition stopConversation :: "app_state \<Rightarrow> error + app_state" where
  "stopConversation s =
     (let s1 = (case sessionRef s of
                  None \<Rightarrow> s
                | Some c \<Rightarrow> s\<lparr>closedSessions := insert c (closedSessions s),
                              sessionRef := None\<rparr>);
          s2 = (case micStreamRef s1 of
                  None \<Rightarrow> s1
                | Some m \<Rightarrow> s1\<lparr>stoppedStreams := insert m (stoppedStreams s1),
                               micStreamRef := None\<rparr>)
      in case stop_each (activeSourcesRef s2) (nodes s2) of
           Inl e \<Rightarrow> Inl e
         | Inr ns \<Rightarrow> Inr (s2\<lparr>nodes := ns, activeSourcesRef := [],
                              connectionState := DISCONNECTED, isListening := False\<rparr>))"

text \<open>
  The object stored in \<open>sessionRef\<close> (line 214) is the \<open>Session\<close> that the library's
  \<open>live.connect\<close> resolves to; the ref is typed \<open>any\<close>. These are the methods of that
  class. Calling a property that is not among them calls \<open>undefined\<close>, which throws a
  TypeError.
\<close>

definition session_methods :: "string list" where
  "session_methods =
     [''sendClientContent'', ''sendRealtimeInput'', ''sendToolResponse'', ''close'']"

text \<open>
  \<open>sendTextMessage\<close> (lines 96 to 107): behind the guard of line 97, the call
  \<open>sessionRef.current.send(...)\<close> of line 99, then the entry of lines 102 to 105. A
  throw at line 99 leaves the state as it was.
\<close>

definition sendTextMessage :: "clock \<Rightarrow> jsstring \<Rightarrow> app_state \<Rightarrow> error + app_state" where
  "sendTextMessage clk txt s =
     (case sessionRef s of
        None \<Rightarrow> Inr s
      | Some c \<Rightarrow>
          if connectionState s = CONNECTED
          then if ''send'' \<in> set session_methods
               then Inr (s\<lparr>sentTexts := sentTexts s @ [(c, txt)],
                          transcriptions := transcriptions s
                            @ [\<lparr>role = user, entry_text = txt, timestamp = date clk\<rparr>]\<rparr>)
               else Inl TypeError
          else Inr s)"

text \<open>The callbacks \<open>onerror\<close> (lines 203 to 207) and \<open>onclose\<close> (lines 208 to 210).\<close>

definition onerror :: "app_state \<Rightarrow> error + app_state" where
  "onerror s = stopConversation (s\<lparr>connectionState := ERROR\<rparr>)"

definition onclose :: "app_state \<Rightarrow> app_state" where
  "onclose s = s\<lparr>connectionState := DISCONNECTED\<rparr>"

text \<open>
  \<open>startConversation\<close> (lines 109 to 219) suspends at \<open>getUserMedia\<close> and at the
  promise of the connection; each piece between two suspensions is an event: the
  request (line 111), the microphone granted (lines 118 and 119), the connection
  stored (line 214), the failure of either (lines 215 to 218). \<open>onopen\<close> is the
  callback of lines 133 to 151 (its wiring of the microphone to the connection changes
  none of the fields modelled), \<open>clearHistory\<close> the function of lines 221 to 223.
\<close>

definition start_requested :: "app_state \<Rightarrow> app_state" where
  "start_requested s = s\<lparr>connectionState := CONNECTING\<rparr>"

definition microphone_granted :: "nat \<Rightarrow> app_state \<Rightarrow> app_state" where
  "microphone_granted m s = s\<lparr>micStreamRef := Some m\<rparr>"

definition session_resolved :: "nat \<Rightarrow> app_state \<Rightarrow> app_state" where
  "session_resolved c s = s\<lparr>sessionRef := Some c\<rparr>"

definition start_failed :: "app_state \<Rightarrow> app_state" where
  "start_failed s = s\<lparr>connectionState := ERROR\<rparr>"

definition onopen :: "app_state \<Rightarrow> app_state" where
  "onopen s = s\<lparr>connectionState := CONNECTED, isListening := True\<rparr>"

definition clearHistory :: "app_state \<Rightarrow> app_state" where
  "clearHistory s = s\<lparr>transcriptions := []\<rparr>"

section \<open>The message handler\<close>

text \<open>
  Line 154: \<open>message.serverContent?.modelTurn?.parts[0]?.inlineData?.data\<close>. Each
  \<open>?.\<close> yields undefined on an absent object; \<open>parts[0]\<close> has no such guard and fails
  with TypeError on an absent \<open>parts\<close>, and is undefined on an empty array.
\<close>

definition base64Audio :: "LiveServerMessage \<Rightarrow> error + jsstring option" where
  "base64Audio message =
     (case serverContent message of
        None \<Rightarrow> Inr None
      | Some sc \<Rightarrow>
          (case modelTurn sc of
             None \<Rightarrow> Inr None
           | Some mt \<Rightarrow>
               (case parts mt of
                  None \<Rightarrow> Inl TypeError
                | Some [] \<Rightarrow> Inr None
                | Some (p # ps) \<Rightarrow>
                    (case inlineData p of
                       None \<Rightarrow> Inr None
                     | Some b \<Rightarrow> Inr (blob_data b)))))"

definition started_node :: "real \<Rightarrow> real \<Rightarrow> SourceNode" where
  "started_node startAt d =
     \<lparr>node_duration = d, node_start = Some startAt, node_stopped = False\<rparr>"

definition set_add :: "nat \<Rightarrow> nat list \<Rightarrow> nat list" where
  "set_add x xs = (if x \<in> set xs then xs else xs @ [x])"

text \<open>
  Lines 155 to 172. The empty string is falsy. \<open>nextStartTimeRef\<close> is raised to the
  current time before the chunk is decoded; \<open>source.start(when)\<close> fails with
  RangeError on a negative time; \<open>started_node\<close> is the node that
  \<open>createBufferSource\<close> and \<open>start\<close> leave. The code that follows the \<open>await\<close> runs before the
  next message is delivered, so the handler is one step.
\<close>

definition handle_audio :: "clock \<Rightarrow> LiveServerMessage \<Rightarrow> app_state \<Rightarrow> error + app_state" where
  "handle_audio clk message s =
     (case base64Audio message of
        Inl e \<Rightarrow> Inl e
      | Inr None \<Rightarrow> Inr s
      | Inr (Some b64) \<Rightarrow>
          if b64 = [] then Inr s
          else
            let startAt = max (nextStartTimeRef s) (currentTime clk) in
            (case decode b64 of
               Inl e \<Rightarrow> Inl e
             | Inr bytes \<Rightarrow>
                 (case decodeAudioData bytes 24000 1 of
                    Inl e \<Rightarrow> Inl e
                  | Inr audioBuffer \<Rightarrow>
                      if startAt < 0 then Inl RangeError
                      else Inr (s\<lparr>nodes := nodes s
                                     @ [started_node startAt (duration audioBuffer)],
                                   nextStartTimeRef := startAt + duration audioBuffer,
                                   activeSourcesRef :=
                                     set_add (length (nodes s)) (activeSourcesRef s)\<rparr>))))"

text \<open>
  Lines 175 to 179. An object is truthy whatever its fields; \<open>+=\<close> with an absent
  \<open>text\<close> appends the string \<open>undefined\<close>.
\<close>

definition message_outputTranscription :: "LiveServerMessage \<Rightarrow> Transcription option" where
  "message_outputTranscription message =
     (case serverContent message of None \<Rightarrow> None | Some sc \<Rightarrow> outputTranscription sc)"

definition message_inputTranscription :: "LiveServerMessage \<Rightarrow> Transcription option" where
  "message_inputTranscription message =
     (case serverContent message of None \<Rightarrow> None | Some sc \<Rightarrow> inputTranscription sc)"

definition message_turnComplete :: "LiveServerMessage \<Rightarrow> bool" where
  "message_turnComplete message =
     (case serverContent message of None \<Rightarrow> False | Some sc \<Rightarrow> turnComplete sc = Some True)"

definition message_interrupted :: "LiveServerMessage \<Rightarrow> bool" where
  "message_interrupted message =
     (case serverContent message of None \<Rightarrow> False | Some sc \<Rightarrow> interrupted sc = Some True)"

definition to_string :: "jsstring option \<Rightarrow> jsstring" where
  "to_string t = (case t of None \<Rightarrow> js ''undefined'' | Some x \<Rightarrow> x)"

definition handle_transcriptions :: "LiveServerMessage \<Rightarrow> app_state \<Rightarrow> app_state" where
  "handle_transcriptions message s =
     (case message_outputTranscription message of
        Some t \<Rightarrow> s\<lparr>currentOutputTranscriptionRef :=
                       currentOutputTranscriptionRef s @ to_string (transcription_text t)\<rparr>
      | None \<Rightarrow>
          (case message_inputTranscription message of
             Some t \<Rightarrow> s\<lparr>currentInputTranscriptionRef :=
                            currentInputTranscriptionRef s @ to_string (transcription_text t)\<rparr>
           | None \<Rightarrow> s))"

text \<open>
  \<open>String.prototype.trim\<close> removes the language's white space and line terminators
  from both ends.
\<close>

definition js_whitespace :: "code_unit \<Rightarrow> bool" where
  "js_whitespace c =
     (unat c \<in> {9, 10, 11, 12, 13, 32, 160, 5760, 8232, 8233, 8239, 8287, 12288, 65279}
      \<or> (8192 \<le> unat c \<and> unat c \<le> 8202))"

definition trim :: "jsstring \<Rightarrow> jsstring" where
  "trim str = rev (dropWhile js_whitespace (rev (dropWhile js_whitespace str)))"

text \<open>Lines 181 to 194.\<close>

definition handle_turn_complete :: "clock \<Rightarrow> LiveServerMessage \<Rightarrow> app_state \<Rightarrow> app_state" where
  "handle_turn_complete clk message s =
     (if message_turnComplete message
      then
        let userText = trim (currentInputTranscriptionRef s);
            modelText = trim (currentOutputTranscriptionRef s);
            s1 = (if userText \<noteq> [] \<or> modelText \<noteq> []
                  then s\<lparr>transcriptions := transcriptions s
                           @ (if userText \<noteq> []
                              then [\<lparr>role = user, entry_text = userText,
                                     timestamp = date clk\<rparr>]
                              else [])
                           @ (if modelText \<noteq> []
                              then [\<lparr>role = model, entry_text = modelText,
                                     timestamp = date clk\<rparr>]
                              else [])\<rparr>
                  else s)
        in s1\<lparr>currentInputTranscriptionRef := [], currentOutputTranscriptionRef := []\<rparr>
      else s)"

text \<open>Lines 197 to 201.\<close>

definition handle_interrupts :: "LiveServerMessage \<Rightarrow> app_state \<Rightarrow> error + app_state" where
  "handle_interrupts message s =
     (if message_interrupted message
      then (case stop_each (activeSourcesRef s) (nodes s) of
              Inl e \<Rightarrow> Inl e
            | Inr ns \<Rightarrow> Inr (s\<lparr>nodes := ns, activeSourcesRef := [],
                                 nextStartTimeRef := 0\<rparr>))
      else Inr s)"

text \<open>\<open>onmessage\<close> (lines 152 to 202): the four parts in the order of the source.\<close>

definition onmessage :: "clock \<Rightarrow> LiveServerMessage \<Rightarrow> app_state \<Rightarrow> error + app_state" where
  "onmessage clk message s =
     (case handle_audio clk message s of
        Inl e \<Rightarrow> Inl e
      | Inr s1 \<Rightarrow>
          handle_interrupts message
            (handle_turn_complete clk message (handle_transcriptions message s1)))"

text \<open>The listener of a source's \<open>ended\<close> event (lines 165 to 167).\<close>

definition source_ended :: "nat \<Rightarrow> app_state \<Rightarrow> app_state" where
  "source_ended i s = s\<lparr>activeSourcesRef := removeAll i (activeSourcesRef s)\<rparr>"

text \<open>
  Messages are handled one after the other in the order of arrival, each with the
  clock readings of its own event.
\<close>

fun run :: "(clock \<times> LiveServerMessage) list \<Rightarrow> app_state \<Rightarrow> error + app_state" where
  "run [] s = Inr s"
| "run ((clk, message) # rest) s =
     (case onmessage clk message s of Inl e \<Rightarrow> Inl e | Inr s' \<Rightarrow> run rest s')"

section \<open>Notions of the specification\<close>

text \<open>
  Every member of the active set is a node of the output context that has been
  started: the handler adds a node to the set only after \<open>start\<close>.
\<close>

definition active_started :: "app_state \<Rightarrow> bool" where
  "active_started s =
     list_all (\<lambda>i. i < length (nodes s) \<and> node_start (nodes s ! i) \<noteq> None)
       (activeSourcesRef s)"

text \<open>
  The playback rule in the words of the specification (section 4.4, steps 2 and 3):
  from a cursor and the pairs (current output time, duration) of the chunks, the start
  times \<open>startAt = max(cursor, currentOutputTime)\<close>, with
  \<open>cursor = startAt + duration\<close> after each.
\<close>

fun spec_schedule :: "real \<Rightarrow> (real \<times> real) list \<Rightarrow> real list" where
  "spec_schedule cursor [] = []"
| "spec_schedule cursor ((now, d) # rest) =
     max cursor now # spec_schedule (max cursor now + d) rest"

fun spec_cursor :: "real \<Rightarrow> (real \<times> real) list \<Rightarrow> real" where
  "spec_cursor cursor [] = cursor"
| "spec_cursor cursor ((now, d) # rest) = spec_cursor (max cursor now + d) rest"

text \<open>A message carries an audio chunk when line 154 yields a non-empty string.\<close>

definition has_audio :: "LiveServerMessage \<Rightarrow> bool" where
  "has_audio message =
     (case base64Audio message of Inr (Some b64) \<Rightarrow> b64 \<noteq> [] | _ \<Rightarrow> False)"

text \<open>
  The end state of \<open>stop()\<close> in the words of the specification (section 4.6): the
  connection closed and forgotten, the microphone released, the active set empty, the
  state Disconnected; \<open>ns\<close> are the source nodes after the forced stop.
\<close>

definition stopped_state :: "app_state \<Rightarrow> SourceNode list \<Rightarrow> app_state" where
  "stopped_state s ns =
     s\<lparr>connectionState := DISCONNECTED, isListening := False, activeSourcesRef := [],
       sessionRef := None, micStreamRef := None, nodes := ns,
       closedSessions := (case sessionRef s of None \<Rightarrow> closedSessions s
                          | Some c \<Rightarrow> insert c (closedSessions s)),
       stoppedStreams := (case micStreamRef s of None \<Rightarrow> stoppedStreams s
                          | Some m \<Rightarrow> insert m (stoppedStreams s))\<rparr>"

text \<open>
  The states of the component: the initial state and the state after any event, in any
  order. A handler that throws while decoding a chunk has already raised
  \<open>nextStartTimeRef\<close> to the current time (line 157) and leaves that state behind.
\<close>

inductive reachable :: "app_state \<Rightarrow> bool" where
  init: "reachable initial_state"
| requested: "reachable s \<Longrightarrow> reachable (start_requested s)"
| granted: "reachable s \<Longrightarrow> reachable (microphone_granted m s)"
| resolved: "reachable s \<Longrightarrow> reachable (session_resolved c s)"
| failed: "reachable s \<Longrightarrow> reachable (start_failed s)"
| opened: "reachable s \<Longrightarrow> reachable (onopen s)"
| closed: "reachable s \<Longrightarrow> reachable (onclose s)"
| errored: "reachable s \<Longrightarrow> onerror s = Inr s' \<Longrightarrow> reachable s'"
| stopped: "reachable s \<Longrightarrow> stopConversation s = Inr s' \<Longrightarrow> reachable s'"
| sent: "reachable s \<Longrightarrow> sendTextMessage clk txt s = Inr s' \<Longrightarrow> reachable s'"
| cleared: "reachable s \<Longrightarrow> reachable (clearHistory s)"
| received: "reachable s \<Longrightarrow> onmessage clk message s = Inr s' \<Longrightarrow> reachable s'"
| threw: "reachable s \<Longrightarrow> has_audio message \<Longrightarrow>
     reachable (s\<lparr>nextStartTimeRef := max (nextStartTimeRef s) (currentTime (clk :: clock))\<rparr>)"
| ended: "reachable s \<Longrightarrow> reachable (source_ended i s)"

section \<open>Events and states used as examples\<close>

text \<open>
  One message per kind of server event of section 4.3, a clock, the base64 text
  \<open>AAA=\<close> of one silent sample, and a connected state in which one unit of ten
  seconds, started at time 0, is playing.
\<close>

definition no_content :: LiveServerContent where
  "no_content = \<lparr>modelTurn = None, outputTranscription = None, inputTranscription = None,
                  turnComplete = None, interrupted = None\<rparr>"

definition audio_message :: "jsstring option \<Rightarrow> LiveServerMessage" where
  "audio_message b64 =
     \<lparr>serverContent = Some (no_content\<lparr>modelTurn :=
        Some \<lparr>parts = Some [\<lparr>inlineData = Some \<lparr>blob_data = b64, blob_mimeType = None\<rparr>\<rparr>]\<rparr>\<rparr>)\<rparr>"


definition turn_complete_message :: LiveServerMessage where
  "turn_complete_message = \<lparr>serverContent = Some (no_content\<lparr>turnComplete := Some True\<rparr>)\<rparr>"

definition interrupted_message :: LiveServerMessage where
  "interrupted_message = \<lparr>serverContent = Some (no_content\<lparr>interrupted := Some True\<rparr>)\<rparr>"

definition partless_message :: LiveServerMessage where
  "partless_message = \<lparr>serverContent = Some (no_content\<lparr>modelTurn := Some \<lparr>parts = None\<rparr>\<rparr>)\<rparr>"

definition clock_at :: "real \<Rightarrow> clock" where
  "clock_at t = \<lparr>currentTime = t, date = 0\<rparr>"

definition one_sample :: jsstring where
  "one_sample = [65, 65, 65, 61]"

definition playing_state :: app_state where
  "playing_state =
     initial_state\<lparr>connectionState := CONNECTED, isListening := True,
       sessionRef := Some 0, micStreamRef := Some 0,
       nodes := [started_node 0 10], activeSourcesRef := [0], nextStartTimeRef := 10\<rparr>"


section \<open>The transport encoding is reversible\<close>


lemma b64_code_lt: "b64_code i < 128"
  unfolding b64_code_def by (simp split: if_splits) arith

lemma unat_b64_char: "unat (b64_char i) = b64_code i"
proof -
  have "b64_code i < 2 ^ 16" using b64_code_lt [of i] by simp
  then show ?thesis by (simp add: b64_char_def unat_of_nat take_bit_nat_eq_self)
qed

lemma b64_index_char: "i < 64 \<Longrightarrow> b64_index (b64_char i) = Some i"
  unfolding b64_index_def unat_b64_char Let_def b64_code_def by (simp split: if_splits) arith

lemma b64_char_not_pad: "i < 64 \<Longrightarrow> unat (b64_char i) \<noteq> 61"
  unfolding unat_b64_char b64_code_def by (simp split: if_splits) arith

lemma b64_char_not_ws: "i < 64 \<Longrightarrow> \<not> ascii_whitespace (b64_char i)"
  unfolding ascii_whitespace_def unat_b64_char b64_code_def by (simp split: if_splits) arith

lemma sextets_lt: "list_all (\<lambda>b. b < 256) bs \<Longrightarrow> list_all (\<lambda>i. i < 64) (b64_sextets bs)"
  by (induction bs rule: b64_sextets.induct) auto

lemma octets_sextets: "list_all (\<lambda>b. b < 256) bs \<Longrightarrow> b64_octets (b64_sextets bs) = bs"
  by (induction bs rule: b64_sextets.induct) auto

lemma length_sextets: "(length (b64_sextets bs) + b64_padding (length bs)) mod 4 = 0"
  by (induction bs rule: b64_sextets.induct) (auto simp: b64_padding_def)

lemma indices_chars: "list_all (\<lambda>i. i < 64) is \<Longrightarrow> b64_indices (map b64_char is) = Some is"
  by (induction "is") (auto simp: b64_index_char)



lemma not_ws_pad: "\<not> ascii_whitespace 61"
  by (simp add: ascii_whitespace_def)

lemma filter_ws_encoded:
  "list_all (\<lambda>i. i < 64) is \<Longrightarrow>
   filter (\<lambda>c. \<not> ascii_whitespace c) (map b64_char is @ replicate k 61)
     = map b64_char is @ replicate k 61"
  by (rule filter_True) (auto simp: list_all_iff b64_char_not_ws not_ws_pad)

lemma last_chars_not_pad:
  "list_all (\<lambda>i. i < 64) is \<Longrightarrow> is \<noteq> [] \<Longrightarrow> unat (last (map b64_char is)) \<noteq> 61"
  by (simp add: last_map list_all_iff b64_char_not_pad)

lemma strip_padding_encoded:
  assumes "list_all (\<lambda>i. i < 64) is" and "k \<le> 2" and "(length is + k) mod 4 = 0"
  shows "strip_padding (map b64_char is @ replicate k 61) = map b64_char is"
proof -
  consider "k = 0" | "k = 1" | "k = 2" using assms(2) by arith
  then show ?thesis
  proof cases
    case 1
    then show ?thesis
      using last_chars_not_pad [OF assms(1)] assms(3) by (auto simp: strip_padding_def)
  next
    case 2
    then show ?thesis
      using last_chars_not_pad [OF assms(1)] assms(3) by (auto simp: strip_padding_def Let_def)
  next
    case 3
    then have "replicate k (61::code_unit) = [61, 61]" by (simp add: numeral_2_eq_2)
    then show ?thesis
      using last_chars_not_pad [OF assms(1)] assms(3) 3
      by (auto simp: strip_padding_def Let_def butlast_append)
  qed
qed

lemma length_sextets_mod: "length (b64_sextets bs) mod 4 \<noteq> Suc 0"
  by (induction bs rule: b64_sextets.induct) auto

lemma b64_padding_le: "b64_padding n \<le> 2"
  by (simp add: b64_padding_def)

lemma atob_btoa:
  assumes "list_all (\<lambda>c. unat c \<le> 255) s"
  shows "\<exists>t. btoa s = Inr t \<and> atob t = Inr s"
proof -
  let ?is = "b64_sextets (map unat s)"
  have bytes: "list_all (\<lambda>b. b < 256) (map unat s)"
    using assms by (auto simp: list_all_iff)
  have lt: "list_all (\<lambda>i. i < 64) ?is" by (rule sextets_lt [OF bytes])
  have enc: "btoa s = Inr (map b64_char ?is @ replicate (b64_padding (length s)) 61)"
    using assms by (auto simp: btoa_def list_ex_iff list_all_iff)
  have len: "(length ?is + b64_padding (length s)) mod 4 = 0"
    using length_sextets [of "map unat s"] by simp
  have "atob (map b64_char ?is @ replicate (b64_padding (length s)) 61) = Inr s"
    unfolding atob_def filter_ws_encoded [OF lt] strip_padding_encoded [OF lt b64_padding_le len] Let_def
    by (simp add: length_sextets_mod indices_chars [OF lt] octets_sextets [OF bytes] comp_def)
  with enc show ?thesis by simp
qed

lemma decode_encode_bytes: "\<exists>t. encode b = Inr t \<and> decode t = Inr b"
proof -
  have "list_all (\<lambda>c. unat c \<le> 255) (map ucast b :: jsstring)"
  proof -
    have "unat (ucast x :: code_unit) \<le> 255" for x :: byte
    proof -
      have "unat (ucast x :: code_unit) = unat x"
        by (simp add: unsigned_ucast_eq take_bit_nat_eq_self
            order_less_trans [OF unsigned_less [of x, where ?'a = nat]])
      moreover have "unat x < 2 ^ 8" using unsigned_less [of x, where ?'a = nat] by simp
      ultimately show ?thesis by simp
    qed
    then show ?thesis by (simp add: list_all_iff)
  qed
  from atob_btoa [OF this] obtain t where "btoa (map ucast b) = Inr t" "atob t = Inr (map ucast b)"
    by blast
  then show ?thesis
    by (simp add: encode_def decode_def comp_def ucast_up_ucast_id is_up)
qed


text \<open>
  C5: for every byte sequence \<open>b\<close>, of any length, \<open>encode\<close> returns a text, and
  \<open>decode\<close> of that text returns \<open>b\<close> exactly.
\<close>

theorem codec_round_trip: "\<exists>t. encode b = Inr t \<and> decode t = Inr b"
  by (rule decode_encode_bytes)

theorem codec_round_trip_witness:
  "\<exists>t. encode [1, 2, 255, 7, 0] = Inr t \<and> decode t = Inr [1, 2, 255, 7, 0]"
  using codec_round_trip [of "[1, 2, 255, 7, 0]"] by simp

section \<open>Quantisation of samples\<close>


lemma js_trunc_range:
  assumes "- 32768 \<le> x" and "x < 32768"
  shows "- 32768 \<le> js_trunc x \<and> js_trunc x < 32768"
  using assms unfolding js_trunc_def by (auto simp: le_floor_iff floor_less_iff ceiling_less_iff le_ceiling_iff) 

lemma js_trunc_close: "\<bar>real_of_int (js_trunc x) - x\<bar> < 1"
  unfolding js_trunc_def by (auto; linarith)

lemma sint_ToInt16:
  assumes "- 32768 \<le> x" and "x < 32768"
  shows "sint (ToInt16 x) = js_trunc x"
proof -
  have "- (2 ^ 15) \<le> js_trunc x" "js_trunc x < 2 ^ 15"
    using js_trunc_range [OF assms] by simp_all
  then show ?thesis
    by (simp add: ToInt16_def sint_sbintrunc' signed_take_bit_int_eq_self)
qed


text \<open>
  C6, as amended: for every sample \<open>s\<close> with \<open>-1 \<le> s < 1\<close>, converting to int16 and
  back yields a value within \<open>1/32768\<close> of \<open>s\<close>.
\<close>

theorem pcm_round_trip_bound:
  assumes "- 1 \<le> s" and "s < 1"
  shows "\<bar>toFloat (toInt16 [s]) ! 0 - s\<bar> \<le> 1 / 32768"
proof -
  let ?x = "s * 32768"
  have r: "- 32768 \<le> ?x" "?x < 32768" using assms by simp_all
  have "\<bar>real_of_int (js_trunc ?x) - ?x\<bar> < 1" by (rule js_trunc_close)
  then have "\<bar>real_of_int (js_trunc ?x) / 32768 - s\<bar> \<le> 1 / 32768"
    by (simp add: abs_le_iff abs_less_iff field_simps)
  then show ?thesis
    by (simp del: of_int_sint add: toFloat_def toInt16_def sint_ToInt16 [OF r])
qed

theorem pcm_round_trip_bound_witness:
  "- 1 \<le> (1 / 2 :: real) \<and> (1 / 2 :: real) < 1
   \<and> \<bar>toFloat (toInt16 [1 / 2]) ! 0 - 1 / 2\<bar> \<le> 1 / 32768"
  using pcm_round_trip_bound [of "1 / 2"] by simp

text \<open>
  The sample 1 lies in the interval of the claim; scaled it is 32768, which wraps to
  -32768, and the round trip returns -1.
\<close>

theorem pcm_round_trip_at_one:
  "toFloat (toInt16 [1]) ! 0 = - 1 \<and> \<not> \<bar>toFloat (toInt16 [1]) ! 0 - 1\<bar> \<le> 1 / 32768"
  by (simp add: toFloat_def toInt16_def ToInt16_def js_trunc_def)


section \<open>From the microphone to the wire and back\<close>

text \<open>
  A frame sent by \<open>createBlob\<close> and read by \<open>decode\<close> and \<open>decodeAudioData\<close> (mono)
  keeps its length, and its samples are those of \<open>toFloat\<close> after \<open>toInt16\<close>.
\<close>


lemma word_cat_halves: "word_cat (ucast (drop_bit 8 w) :: byte) (ucast w :: byte) = (w :: int16)"
  by (rule bit_word_eqI) (auto simp: bit_simps)

lemma int16_of_bytes_of_int16: "int16_of_bytes (bytes_of_int16 ws) = ws"
  by (induction ws) (simp_all add: bytes_of_int16_def word_cat_halves)

lemma length_bytes_of_int16: "length (bytes_of_int16 ws) = 2 * length ws"
  by (induction ws) (simp_all add: bytes_of_int16_def)

lemma capture_to_playback:
  assumes "dat \<noteq> []"
  shows "\<exists>t bytes. createBlob dat = Inr \<lparr>blob_data = Some t, blob_mimeType = Some (js ''audio/pcm;rate=16000'')\<rparr>
     \<and> decode t = Inr bytes
     \<and> decodeAudioData bytes r 1
         = Inr \<lparr>buffer_sampleRate = r, buffer_length = length dat,
                 buffer_channels = [toFloat (toInt16 dat)]\<rparr>"
proof -
  let ?bytes = "bytes_of_int16 (toInt16 dat)"
  from decode_encode_bytes [of ?bytes] obtain t where t: "encode ?bytes = Inr t" "decode t = Inr ?bytes"
    by blast
  have l: "length (toInt16 dat) = length dat" by (simp add: toInt16_def)
  have ne: "toInt16 dat \<noteq> []" using assms by (simp add: toInt16_def)
  have "decodeAudioData ?bytes r 1
         = Inr \<lparr>buffer_sampleRate = r, buffer_length = length dat,
                 buffer_channels = [toFloat (toInt16 dat)]\<rparr>"
    using ne
    by (simp add: decodeAudioData_def length_bytes_of_int16 int16_of_bytes_of_int16 l Let_def
        map_nth [of "toInt16 dat", unfolded l])
  with t show ?thesis by (simp add: createBlob_def)
qed

section \<open>Stopping\<close>


lemma stop_each_length: "stop_each is ns = Inr ns' \<Longrightarrow> length ns' = length ns"
  by (induction "is" arbitrary: ns) (auto simp: node_stop_def split: sum.splits if_splits)

lemma stop_each_nth:
  "stop_each is ns = Inr ns' \<Longrightarrow> i < length ns \<Longrightarrow>
   ns' ! i = (if i \<in> set is then (ns ! i)\<lparr>node_stopped := True\<rparr> else ns ! i)"
proof (induction "is" arbitrary: ns)
  case Nil
  then show ?case by simp
next
  case (Cons j js)
  from Cons.prems(1) obtain ns1 where 1: "node_stop j ns = Inr ns1" and 2: "stop_each js ns1 = Inr ns'"
    by (auto split: sum.splits)
  from 1 have ns1: "ns1 = ns[j := (ns ! j)\<lparr>node_stopped := True\<rparr>]" and j: "j < length ns"
    by (auto simp: node_stop_def split: if_splits)
  have "i < length ns1" using Cons.prems(2) ns1 by simp
  from Cons.IH [OF 2 this] show ?case
    using ns1 Cons.prems(2) by (cases "i = j") (auto simp: nth_list_update)
qed

lemma stop_each_total:
  "list_all (\<lambda>i. i < length ns \<and> node_start (ns ! i) \<noteq> None) is \<Longrightarrow> \<exists>ns'. stop_each is ns = Inr ns'"
proof (induction "is" arbitrary: ns)
  case Nil
  then show ?case by simp
next
  case (Cons j js)
  let ?ns1 = "ns[j := (ns ! j)\<lparr>node_stopped := True\<rparr>]"
  have 1: "node_stop j ns = Inr ?ns1" using Cons.prems by (simp add: node_stop_def)
  have "list_all (\<lambda>i. i < length ?ns1 \<and> node_start (?ns1 ! i) \<noteq> None) js"
    using Cons.prems by (auto simp: list_all_iff nth_list_update)
  from Cons.IH [OF this] show ?case using 1 by simp
qed




lemma stopConversation_eq:
  "stopConversation s =
     (case stop_each (activeSourcesRef s) (nodes s) of
        Inl e \<Rightarrow> Inl e | Inr ns \<Rightarrow> Inr (stopped_state s ns))"
proof (cases "sessionRef s")
  case None
  show ?thesis
  proof (cases "micStreamRef s")
    case N2: None
    with None show ?thesis
      by (simp add: stopConversation_def stopped_state_def split: sum.splits)
  next
    case (Some m)
    with None show ?thesis
      by (simp add: stopConversation_def stopped_state_def split: sum.splits)
  qed
next
  case (Some c)
  show ?thesis
  proof (cases "micStreamRef s")
    case None
    with Some show ?thesis
      by (simp add: stopConversation_def stopped_state_def split: sum.splits)
  next
    case S2: (Some m)
    with Some show ?thesis
      by (simp add: stopConversation_def stopped_state_def split: sum.splits)
  qed
qed

lemma stopConversation_twice:
  assumes "stopConversation s = Inr s1"
  shows "stopConversation s1 = Inr s1"
proof -
  from assms obtain ns where s1: "s1 = stopped_state s ns"
    by (auto simp: stopConversation_eq split: sum.splits)
  show ?thesis
    unfolding stopConversation_eq s1 by (simp add: stopped_state_def)
qed

lemma handle_audio_skip:
  "\<not> has_audio message \<Longrightarrow> base64Audio message \<noteq> Inl TypeError \<Longrightarrow> handle_audio clk message s = Inr s"
  by (auto simp: handle_audio_def has_audio_def base64Audio_def split: sum.splits option.splits list.splits)

lemma decodeAudioData_duration:
  "decodeAudioData bytes 24000 1 = Inr b \<Longrightarrow> 0 < duration b"
  by (auto simp: decodeAudioData_def duration_def Let_def split: if_splits)

lemma handle_audio_chunk:
  assumes "handle_audio clk message s = Inr s1" and "has_audio message"
  shows "\<exists>d. 0 < d \<and> s1 = s\<lparr>nodes := nodes s
                   @ [started_node (max (nextStartTimeRef s) (currentTime clk)) d],
               nextStartTimeRef := max (nextStartTimeRef s) (currentTime clk) + d,
               activeSourcesRef := set_add (length (nodes s)) (activeSourcesRef s)\<rparr>"
proof -
  from assms(2) obtain b64 where b: "base64Audio message = Inr (Some b64)" "b64 \<noteq> []"
    by (auto simp: has_audio_def split: sum.splits option.splits)
  from assms(1) b obtain bytes where dec: "decode b64 = Inr bytes"
    by (auto simp: handle_audio_def Let_def split: sum.splits)
  from assms(1) b dec obtain ab where ab: "decodeAudioData bytes 24000 1 = Inr ab"
    by (auto simp: handle_audio_def Let_def split: sum.splits)
  from assms(1) b dec ab decodeAudioData_duration [OF ab] show ?thesis
    by (auto simp: handle_audio_def Let_def started_node_def split: if_splits intro!: exI [of _ "duration ab"])
qed


section \<open>The parts of the message handler\<close>


lemma handle_audio_frame:
  assumes "handle_audio clk message s = Inr s1"
  shows "s1 = s\<lparr>nodes := nodes s1, nextStartTimeRef := nextStartTimeRef s1,
                activeSourcesRef := activeSourcesRef s1\<rparr>"
proof (cases "has_audio message")
  case True
  from handle_audio_chunk [OF assms True] show ?thesis by auto
next
  case False
  have "base64Audio message \<noteq> Inl TypeError"
    using assms by (auto simp: handle_audio_def)
  from handle_audio_skip [OF False this] assms show ?thesis by simp
qed

lemma handle_interrupts_frame:
  assumes "handle_interrupts message s = Inr s'"
  shows "s' = s\<lparr>nodes := nodes s', nextStartTimeRef := nextStartTimeRef s',
                activeSourcesRef := activeSourcesRef s'\<rparr>"
  using assms by (auto simp: handle_interrupts_def split: if_splits sum.splits)

lemma handle_transcriptions_frame:
  "handle_transcriptions message s =
     s\<lparr>currentOutputTranscriptionRef := currentOutputTranscriptionRef (handle_transcriptions message s),
       currentInputTranscriptionRef := currentInputTranscriptionRef (handle_transcriptions message s)\<rparr>"
  by (simp add: handle_transcriptions_def split: option.splits)

lemma handle_turn_complete_frame:
  "handle_turn_complete clk message s =
     s\<lparr>currentOutputTranscriptionRef := currentOutputTranscriptionRef (handle_turn_complete clk message s),
       currentInputTranscriptionRef := currentInputTranscriptionRef (handle_turn_complete clk message s),
       transcriptions := transcriptions (handle_turn_complete clk message s)\<rparr>"
  by (simp add: handle_turn_complete_def Let_def)

lemma onmessage_Inr:
  assumes "onmessage clk message s = Inr s'"
  obtains s1 where "handle_audio clk message s = Inr s1"
    and "handle_interrupts message (handle_turn_complete clk message (handle_transcriptions message s1)) = Inr s'"
  using assms by (auto simp: onmessage_def split: sum.splits)

lemma handle_transcriptions_buffers:
  assumes "currentInputTranscriptionRef s1 = currentInputTranscriptionRef s"
    and "currentOutputTranscriptionRef s1 = currentOutputTranscriptionRef s"
  shows "currentInputTranscriptionRef (handle_transcriptions message s1)
           = currentInputTranscriptionRef (handle_transcriptions message s)"
    and "currentOutputTranscriptionRef (handle_transcriptions message s1)
           = currentOutputTranscriptionRef (handle_transcriptions message s)"
  using assms by (simp_all add: handle_transcriptions_def split: option.splits)

lemma onmessage_text_fields:
  assumes "onmessage clk message s = Inr s'"
  defines "t \<equiv> handle_turn_complete clk message (handle_transcriptions message s)"
  shows "transcriptions s' = transcriptions t"
    and "currentInputTranscriptionRef s' = currentInputTranscriptionRef t"
    and "currentOutputTranscriptionRef s' = currentOutputTranscriptionRef t"
    and "connectionState s' = connectionState s"
proof -
  from assms(1) obtain s1 where a: "handle_audio clk message s = Inr s1"
    and i: "handle_interrupts message (handle_turn_complete clk message (handle_transcriptions message s1)) = Inr s'"
    by (rule onmessage_Inr)
  let ?t1 = "handle_turn_complete clk message (handle_transcriptions message s1)"
  have s1: "transcriptions s1 = transcriptions s"
    "currentInputTranscriptionRef s1 = currentInputTranscriptionRef s"
    "currentOutputTranscriptionRef s1 = currentOutputTranscriptionRef s"
    "connectionState s1 = connectionState s"
    by (subst handle_audio_frame [OF a], simp)+
  have tr: "transcriptions (handle_transcriptions message s1) = transcriptions s"
    "transcriptions (handle_transcriptions message s) = transcriptions s"
    "connectionState (handle_transcriptions message s1) = connectionState s"
    using s1 by (simp_all add: handle_transcriptions_def split: option.splits)
  have t1: "transcriptions ?t1 = transcriptions t"
    "currentInputTranscriptionRef ?t1 = currentInputTranscriptionRef t"
    "currentOutputTranscriptionRef ?t1 = currentOutputTranscriptionRef t"
    "connectionState ?t1 = connectionState s"
    using handle_transcriptions_buffers [OF s1(2,3), of message] tr
    by (simp_all add: t_def handle_turn_complete_def Let_def)
  have s': "transcriptions s' = transcriptions ?t1"
    "currentInputTranscriptionRef s' = currentInputTranscriptionRef ?t1"
    "currentOutputTranscriptionRef s' = currentOutputTranscriptionRef ?t1"
    "connectionState s' = connectionState ?t1"
    by (subst handle_interrupts_frame [OF i], simp)+
  show "transcriptions s' = transcriptions t"
    and "currentInputTranscriptionRef s' = currentInputTranscriptionRef t"
    and "currentOutputTranscriptionRef s' = currentOutputTranscriptionRef t"
    and "connectionState s' = connectionState s"
    using s' t1 by simp_all
qed


section \<open>The playback schedule\<close>


lemma length_spec_schedule: "length (spec_schedule c xs) = length xs"
  by (induction xs arbitrary: c) auto

lemma spec_schedule_Suc:
  "Suc i < length xs \<Longrightarrow>
   spec_schedule c xs ! Suc i = max (spec_schedule c xs ! i + snd (xs ! i)) (fst (xs ! Suc i))"
proof (induction xs arbitrary: c i)
  case Nil
  then show ?case by simp
next
  case (Cons x xs)
  obtain n d where x: "x = (n, d)" by (cases x)
  show ?case
  proof (cases i)
    case 0
    with Cons.prems obtain n' d' r where "xs = (n', d') # r" by (cases xs) auto
    with 0 x show ?thesis by simp
  next
    case (Suc j)
    with Cons.prems have "Suc j < length xs" by simp
    from Cons.IH [OF this] Suc x show ?thesis by simp
  qed
qed

lemma spec_schedule_lower:
  "i < length xs \<Longrightarrow>
   spec_schedule c xs ! 0 + sum_list (take i (map snd xs)) \<le> spec_schedule c xs ! i"
proof (induction i)
  case 0
  then show ?case by simp
next
  case (Suc i)
  then have i: "i < length xs" by simp
  have "take (Suc i) (map snd xs) = take i (map snd xs) @ [snd (xs ! i)]"
    using i by (simp add: take_Suc_conv_app_nth)
  then show ?case
    using Suc.IH [OF i] spec_schedule_Suc [OF Suc.prems, of c] by simp
qed

lemma spec_schedule_gapless:
  assumes "\<forall>k. Suc k < length xs \<longrightarrow> fst (xs ! Suc k) \<le> spec_schedule c xs ! k + snd (xs ! k)"
  shows "i < length xs \<Longrightarrow>
   spec_schedule c xs ! i = spec_schedule c xs ! 0 + sum_list (take i (map snd xs))"
proof (induction i)
  case 0
  then show ?case by simp
next
  case (Suc i)
  then have i: "i < length xs" by simp
  have "take (Suc i) (map snd xs) = take i (map snd xs) @ [snd (xs ! i)]"
    using i by (simp add: take_Suc_conv_app_nth)
  moreover have "fst (xs ! Suc i) \<le> spec_schedule c xs ! i + snd (xs ! i)"
    using assms Suc.prems by blast
  ultimately show ?case
    using Suc.IH [OF i] spec_schedule_Suc [OF Suc.prems, of c] by simp
qed

lemma spec_schedule_sorted:
  assumes "list_all (\<lambda>x. 0 \<le> snd x) xs"
  shows "sorted (spec_schedule c xs)"
proof -
  have step: "spec_schedule c xs ! i \<le> spec_schedule c xs ! Suc i" if "Suc i < length xs" for i
  proof -
    have "0 \<le> snd (xs ! i)" using assms that by (simp add: list_all_length)
    then show ?thesis using spec_schedule_Suc [OF that, of c] by simp
  qed
  show ?thesis
    by (rule sorted_iff_nth_Suc [THEN iffD2]) (simp add: length_spec_schedule step)
qed



lemma text_stages_audio_fields:
  "nodes (handle_turn_complete clk message (handle_transcriptions message s)) = nodes s"
  "nextStartTimeRef (handle_turn_complete clk message (handle_transcriptions message s)) = nextStartTimeRef s"
  "activeSourcesRef (handle_turn_complete clk message (handle_transcriptions message s)) = activeSourcesRef s"
  by (subst handle_turn_complete_frame, simp, subst handle_transcriptions_frame, simp)+

lemma onmessage_chunk:
  assumes "onmessage clk message s = Inr s'" and "has_audio message"
    and "\<not> message_interrupted message"
  shows "\<exists>d. 0 < d
     \<and> nodes s' = nodes s @ [started_node (max (nextStartTimeRef s) (currentTime clk)) d]
     \<and> nextStartTimeRef s' = max (nextStartTimeRef s) (currentTime clk) + d"
proof -
  from assms(1) obtain s1 where a: "handle_audio clk message s = Inr s1"
    and i: "handle_interrupts message (handle_turn_complete clk message (handle_transcriptions message s1)) = Inr s'"
    by (rule onmessage_Inr)
  from i assms(3) have s': "s' = handle_turn_complete clk message (handle_transcriptions message s1)"
    by (simp add: handle_interrupts_def)
  from handle_audio_chunk [OF a assms(2)] obtain d where d: "0 < d"
    and n: "nodes s1 = nodes s @ [started_node (max (nextStartTimeRef s) (currentTime clk)) d]"
    and c: "nextStartTimeRef s1 = max (nextStartTimeRef s) (currentTime clk) + d"
    by auto
  show ?thesis
    using d n c unfolding s' text_stages_audio_fields by blast
qed

lemma run_schedule:
  assumes "run ms s = Inr s'"
    and "list_all (\<lambda>(clk, message). has_audio message \<and> \<not> message_interrupted message) ms"
  shows "\<exists>ds. length ds = length ms \<and> list_all (\<lambda>d. 0 < d) ds
     \<and> nodes s' = nodes s
          @ map2 started_node
              (spec_schedule (nextStartTimeRef s) (zip (map (\<lambda>x. currentTime (fst x)) ms) ds)) ds
     \<and> nextStartTimeRef s' = spec_cursor (nextStartTimeRef s) (zip (map (\<lambda>x. currentTime (fst x)) ms) ds)"
  using assms
proof (induction ms arbitrary: s)
  case Nil
  then show ?case by simp
next
  case (Cons x ms)
  obtain clk message where x: "x = (clk, message)" by (cases x)
  from Cons.prems(1) x obtain s1 where 1: "onmessage clk message s = Inr s1" and 2: "run ms s1 = Inr s'"
    by (auto split: sum.splits)
  from Cons.prems(2) x have h: "has_audio message" "\<not> message_interrupted message"
    and rest: "list_all (\<lambda>(clk, message). has_audio message \<and> \<not> message_interrupted message) ms"
    by simp_all
  from onmessage_chunk [OF 1 h] obtain d where d: "0 < d"
    and n: "nodes s1 = nodes s @ [started_node (max (nextStartTimeRef s) (currentTime clk)) d]"
    and c: "nextStartTimeRef s1 = max (nextStartTimeRef s) (currentTime clk) + d"
    by blast
  from Cons.IH [OF 2 rest] obtain ds where ds: "length ds = length ms" "list_all (\<lambda>d. 0 < d) ds"
    and n': "nodes s' = nodes s1
          @ map2 started_node
              (spec_schedule (nextStartTimeRef s1) (zip (map (\<lambda>x. currentTime (fst x)) ms) ds)) ds"
    and c': "nextStartTimeRef s' = spec_cursor (nextStartTimeRef s1) (zip (map (\<lambda>x. currentTime (fst x)) ms) ds)"
    by blast
  show ?case
    by (rule exI [of _ "d # ds"]) (simp add: ds d n n' c c' x)
qed


lemma map_start_started:
  "length sts = length ds \<Longrightarrow> map (the \<circ> node_start) (map2 started_node sts ds) = sts"
  "length sts = length ds \<Longrightarrow> map node_duration (map2 started_node sts ds) = ds"
  "list_all (\<lambda>n. node_start n \<noteq> None \<and> \<not> node_stopped n) (map2 started_node sts ds)"
  by (induction sts ds rule: list_induct2'; simp add: started_node_def)+

lemma spec_cursor_last:
  "xs \<noteq> [] \<Longrightarrow> spec_cursor c xs = last (spec_schedule c xs) + snd (last xs)"
  by (induction c xs rule: spec_cursor.induct) (auto simp: neq_Nil_conv)

text \<open>
  C1, as amended: for chunks handled without an intervening Interrupted event (and whose
  handler returns), each start time is \<open>max(cursor, currentOutputTime)\<close> at the moment
  of scheduling and the cursor is then advanced by the chunk's duration; the start times
  are non-decreasing; the i-th start time is at least the first start time plus the
  durations of the chunks before it, and equal to it when every chunk after the first
  arrives no later than the end of the chunk before it.
\<close>

theorem playback_schedule:
  assumes "run ms s = Inr s'"
    and "list_all (\<lambda>(clk, message). has_audio message \<and> \<not> message_interrupted message) ms"
  defines "new \<equiv> drop (length (nodes s)) (nodes s')"
  defines "starts \<equiv> map (the \<circ> node_start) new"
  defines "durs \<equiv> map node_duration new"
  defines "nows \<equiv> map (\<lambda>x. currentTime (fst x)) ms"
  shows "take (length (nodes s)) (nodes s') = nodes s
     \<and> length new = length ms
     \<and> list_all (\<lambda>n. node_start n \<noteq> None \<and> \<not> node_stopped n) new
     \<and> starts = spec_schedule (nextStartTimeRef s) (zip nows durs)
     \<and> nextStartTimeRef s' = spec_cursor (nextStartTimeRef s) (zip nows durs)
     \<and> sorted starts
     \<and> (\<forall>i<length ms. starts ! 0 + sum_list (take i durs) \<le> starts ! i)
     \<and> ((\<forall>k. Suc k < length ms \<longrightarrow> nows ! Suc k \<le> starts ! k + durs ! k)
          \<longrightarrow> (\<forall>i<length ms. starts ! i = starts ! 0 + sum_list (take i durs)))"
proof -
  from run_schedule [OF assms(1,2)] obtain ds where len: "length ds = length ms"
    and pos: "list_all (\<lambda>d. 0 < d) ds"
    and n: "nodes s' = nodes s @ map2 started_node (spec_schedule (nextStartTimeRef s) (zip nows ds)) ds"
    and c: "nextStartTimeRef s' = spec_cursor (nextStartTimeRef s) (zip nows ds)"
    unfolding nows_def by blast
  let ?xs = "zip nows ds"
  let ?sts = "spec_schedule (nextStartTimeRef s) ?xs"
  have lx: "length ?xs = length ms" using len by (simp add: nows_def)
  have ls: "length ?sts = length ds" using len by (simp add: length_spec_schedule nows_def)
  have new: "new = map2 started_node ?sts ds" by (simp add: new_def n)
  have durs: "durs = ds" unfolding durs_def new by (rule map_start_started(2) [OF ls])
  have starts: "starts = ?sts" unfolding starts_def new by (rule map_start_started(1) [OF ls])
  have snd: "map snd ?xs = ds" using len by (simp add: nows_def)
  have fst: "map fst ?xs = nows" using len by (simp add: nows_def)
  have nth: "fst (?xs ! k) = nows ! k" "snd (?xs ! k) = ds ! k" if "k < length ms" for k
    using that len by (simp_all add: nows_def)
  have nonneg: "list_all (\<lambda>x. 0 \<le> snd x) ?xs"
    using pos by (auto simp: list_all_iff dest!: set_zip_rightD)
  have 1: "take (length (nodes s)) (nodes s') = nodes s" by (simp add: n)
  have 2: "length new = length ms" by (simp add: new ls len)
  have 3: "list_all (\<lambda>n. node_start n \<noteq> None \<and> \<not> node_stopped n) new"
    unfolding new by (rule map_start_started(3))
  have 6: "sorted starts" unfolding starts by (rule spec_schedule_sorted [OF nonneg])
  have 7: "\<forall>i<length ms. starts ! 0 + sum_list (take i durs) \<le> starts ! i"
  proof (intro allI impI)
    fix i assume "i < length ms"
    then have "i < length ?xs" using lx by simp
    from spec_schedule_lower [OF this, of "nextStartTimeRef s"] show
      "starts ! 0 + sum_list (take i durs) \<le> starts ! i"
      by (simp only: starts durs snd)
  qed
  have 8: "\<forall>i<length ms. starts ! i = starts ! 0 + sum_list (take i durs)"
    if h: "\<forall>k. Suc k < length ms \<longrightarrow> nows ! Suc k \<le> starts ! k + durs ! k"
  proof -
    have "\<forall>k. Suc k < length ?xs \<longrightarrow> fst (?xs ! Suc k) \<le> ?sts ! k + snd (?xs ! k)"
    proof (intro allI impI)
      fix k assume a: "Suc k < length ?xs"
      from a [unfolded lx] have k: "Suc k < length ms" "k < length ms" by simp_all
      from h k(1) have "nows ! Suc k \<le> starts ! k + durs ! k" by blast
      then show "fst (?xs ! Suc k) \<le> ?sts ! k + snd (?xs ! k)"
        by (simp only: nth(1) [OF k(1)] nth(2) [OF k(2)] starts durs)
    qed
    note g = spec_schedule_gapless [OF this]
    show ?thesis
    proof (intro allI impI)
      fix i assume "i < length ms"
      then have "i < length ?xs" using lx by simp
      from g [OF this] show "starts ! i = starts ! 0 + sum_list (take i durs)"
        by (simp only: starts durs snd)
    qed
  qed
  show ?thesis
    using 1 2 3 6 7 8 by (simp add: starts durs c)
qed


section \<open>Evaluation of the handler on the example events\<close>

lemma decode_one_sample: "decode one_sample = Inr [0, 0]"
  by (simp add: decode_def atob_def one_sample_def ascii_whitespace_def strip_padding_def
      b64_index_def Let_def)

lemma decodeAudioData_one_sample:
  "decodeAudioData [0, 0] 24000 (Suc 0)
     = Inr \<lparr>buffer_sampleRate = 24000, buffer_length = 1, buffer_channels = [[0]]\<rparr>"
  by (simp add: decodeAudioData_def toFloat_def Let_def word_cat_eq)

lemma base64Audio_audio_message: "base64Audio (audio_message b) = Inr b"
  by (simp add: base64Audio_def audio_message_def no_content_def)

lemma audio_message_flags:
  "message_outputTranscription (audio_message b) = None"
  "message_inputTranscription (audio_message b) = None"
  "\<not> message_turnComplete (audio_message b)"
  "\<not> message_interrupted (audio_message b)"
  by (simp_all add: audio_message_def no_content_def message_outputTranscription_def
      message_inputTranscription_def message_turnComplete_def message_interrupted_def)

lemma onmessage_one_sample:
  assumes "0 \<le> currentTime clk"
  shows "onmessage clk (audio_message (Some one_sample)) s
     = Inr (s\<lparr>nodes := nodes s @ [started_node (max (nextStartTimeRef s) (currentTime clk)) (1 / 24000)],
             nextStartTimeRef := max (nextStartTimeRef s) (currentTime clk) + 1 / 24000,
             activeSourcesRef := set_add (length (nodes s)) (activeSourcesRef s)\<rparr>)"
proof -
  have ne: "one_sample \<noteq> []" by (simp add: one_sample_def)
  have m: "(max (nextStartTimeRef s) (currentTime clk) < 0) = False" using assms by simp
  have a: "handle_audio clk (audio_message (Some one_sample)) s
     = Inr (s\<lparr>nodes := nodes s @ [started_node (max (nextStartTimeRef s) (currentTime clk)) (1 / 24000)],
             nextStartTimeRef := max (nextStartTimeRef s) (currentTime clk) + 1 / 24000,
             activeSourcesRef := set_add (length (nodes s)) (activeSourcesRef s)\<rparr>)"
    unfolding handle_audio_def base64Audio_audio_message
    using ne assms by (simp add: decode_one_sample decodeAudioData_one_sample duration_def Let_def)
  show ?thesis
    unfolding onmessage_def a
    by (simp add: handle_transcriptions_def handle_turn_complete_def handle_interrupts_def
        audio_message_flags)
qed

lemma has_audio_one_sample: "has_audio (audio_message (Some one_sample))"
  by (simp add: has_audio_def base64Audio_audio_message one_sample_def)

lemma run_two_samples:
  "run [(clock_at 0, audio_message (Some one_sample)), (clock_at 1, audio_message (Some one_sample))]
       initial_state
   = Inr (initial_state\<lparr>nodes := [started_node 0 (1 / 24000), started_node 1 (1 / 24000)],
            nextStartTimeRef := 1 + 1 / 24000, activeSourcesRef := [0, 1]\<rparr>)"
  by (simp add: onmessage_one_sample clock_at_def initial_state_def set_add_def)


lemma run_two_samples_gapless:
  "run [(clock_at 0, audio_message (Some one_sample)), (clock_at 0, audio_message (Some one_sample))]
       initial_state
   = Inr (initial_state\<lparr>nodes := [started_node 0 (1 / 24000), started_node (1 / 24000) (1 / 24000)],
            nextStartTimeRef := 1 / 24000 + 1 / 24000, activeSourcesRef := [0, 1]\<rparr>)"
  by (simp add: onmessage_one_sample clock_at_def initial_state_def set_add_def)

theorem playback_schedule_witness:
  "run [(clock_at 0, audio_message (Some one_sample)), (clock_at 0, audio_message (Some one_sample))]
       initial_state
     = Inr (initial_state\<lparr>nodes := [started_node 0 (1 / 24000), started_node (1 / 24000) (1 / 24000)],
            nextStartTimeRef := 1 / 24000 + 1 / 24000, activeSourcesRef := [0, 1]\<rparr>)
   \<and> list_all (\<lambda>(clk, message). has_audio message \<and> \<not> message_interrupted message)
        [(clock_at 0, audio_message (Some one_sample)), (clock_at 0, audio_message (Some one_sample))]
   \<and> map (the \<circ> node_start) [started_node 0 (1 / 24000), started_node (1 / 24000) (1 / 24000)]
        = spec_schedule 0 [(0, 1 / 24000), (0, 1 / 24000)]
   \<and> sorted (map (the \<circ> node_start) [started_node 0 (1 / 24000), started_node (1 / 24000) (1 / 24000)])
   \<and> map (the \<circ> node_start) [started_node 0 (1 / 24000), started_node (1 / 24000) (1 / 24000)] ! 1
        = map (the \<circ> node_start) [started_node 0 (1 / 24000), started_node (1 / 24000) (1 / 24000)] ! 0
           + sum_list (take 1 (map node_duration
               [started_node 0 (1 / 24000), started_node (1 / 24000) (1 / 24000)]))"
proof -
  let ?ms = "[(clock_at 0, audio_message (Some one_sample)), (clock_at 0, audio_message (Some one_sample))]"
  let ?new = "[started_node 0 (1 / 24000), started_node (1 / 24000) (1 / 24000)]"
  let ?s' = "initial_state\<lparr>nodes := ?new,
            nextStartTimeRef := 1 / 24000 + 1 / 24000, activeSourcesRef := [0, 1]\<rparr>"
  have h1: "run ?ms initial_state = Inr ?s'" by (rule run_two_samples_gapless)
  have h2: "list_all (\<lambda>(clk, message). has_audio message \<and> \<not> message_interrupted message) ?ms"
    by (simp add: has_audio_one_sample audio_message_flags)
  have n: "drop (length (nodes initial_state)) (nodes ?s') = ?new"
    by (simp add: initial_state_def)
  have c: "nextStartTimeRef initial_state = 0" by (simp add: initial_state_def)
  note t = playback_schedule [OF h1 h2, unfolded n c]
  have prem: "\<forall>k. Suc k < length ?ms \<longrightarrow>
      map (\<lambda>x. currentTime (fst x)) ?ms ! Suc k
        \<le> map (the \<circ> node_start) ?new ! k + map node_duration ?new ! k"
    by (simp add: clock_at_def started_node_def)
  from t have 1: "map (the \<circ> node_start) ?new = spec_schedule 0 [(0, 1 / 24000), (0, 1 / 24000)]"
    by (simp add: clock_at_def started_node_def)
  from t have 2: "sorted (map (the \<circ> node_start) ?new)"
    by blast
  from t prem have "\<forall>i<length ?ms. map (the \<circ> node_start) ?new ! i
      = map (the \<circ> node_start) ?new ! 0 + sum_list (take i (map node_duration ?new))"
    by blast
  from this [rule_format, of 1] have 3: "map (the \<circ> node_start) ?new ! 1
      = map (the \<circ> node_start) ?new ! 0 + sum_list (take 1 (map node_duration ?new))"
    by simp
  show ?thesis using h1 h2 1 2 3 by blast
qed

text \<open>
  A chunk that arrives after the previous one has ended starts at the current time: the
  second of two chunks of 1/24000 s, arriving at time 1, starts at 1 and not at 1/24000.
\<close>

theorem playback_gap_after_underrun:
  "run [(clock_at 0, audio_message (Some one_sample)), (clock_at 1, audio_message (Some one_sample))]
       initial_state
     = Inr (initial_state\<lparr>nodes := [started_node 0 (1 / 24000), started_node 1 (1 / 24000)],
            nextStartTimeRef := 1 + 1 / 24000, activeSourcesRef := [0, 1]\<rparr>)
   \<and> list_all (\<lambda>(clk, message). has_audio message \<and> \<not> message_interrupted message)
        [(clock_at 0, audio_message (Some one_sample)), (clock_at 1, audio_message (Some one_sample))]
   \<and> map (the \<circ> node_start) [started_node 0 (1 / 24000), started_node 1 (1 / 24000)] ! 1
       \<noteq> map (the \<circ> node_start) [started_node 0 (1 / 24000), started_node 1 (1 / 24000)] ! 0
           + sum_list (take 1 (map node_duration [started_node 0 (1 / 24000), started_node 1 (1 / 24000)]))"
  using run_two_samples
  by (simp add: has_audio_one_sample audio_message_flags started_node_def)


section \<open>Interruption\<close>

lemma stop_each_stopped:
  "stop_each is ns = Inr ns' \<Longrightarrow> i \<in> set is \<Longrightarrow> i < length ns \<and> node_stopped (ns' ! i)"
proof (induction "is" arbitrary: ns)
  case Nil
  then show ?case by simp
next
  case (Cons j js)
  from Cons.prems(1) obtain ns1 where 1: "node_stop j ns = Inr ns1" and 2: "stop_each js ns1 = Inr ns'"
    by (auto split: sum.splits)
  from 1 have j: "j < length ns" and l: "length ns1 = length ns"
    by (auto simp: node_stop_def split: if_splits)
  show ?case
  proof (cases "i \<in> set js")
    case True
    from Cons.IH [OF 2 True] l show ?thesis by simp
  next
    case False
    with Cons.prems(2) have "i = j" by simp
    with j stop_each_nth [OF Cons.prems(1), of i] show ?thesis by simp
  qed
qed

lemma stop_each_start:
  "stop_each is ns = Inr ns' \<Longrightarrow> i < length ns \<Longrightarrow> node_start (ns' ! i) = node_start (ns ! i)"
  by (simp add: stop_each_nth)

lemma set_add_set: "set (set_add x xs) = insert x (set xs)"
  by (auto simp: set_add_def)

lemma handle_audio_active:
  assumes "handle_audio clk message s = Inr s1"
  shows "set (activeSourcesRef s) \<subseteq> set (activeSourcesRef s1)"
    and "length (nodes s) \<le> length (nodes s1)"
proof -
  show "set (activeSourcesRef s) \<subseteq> set (activeSourcesRef s1)"
  proof (cases "has_audio message")
    case True
    from handle_audio_chunk [OF assms True] show ?thesis by (auto simp: set_add_set)
  next
    case False
    have "base64Audio message \<noteq> Inl TypeError" using assms by (auto simp: handle_audio_def)
    from handle_audio_skip [OF False this] assms show ?thesis by simp
  qed
  show "length (nodes s) \<le> length (nodes s1)"
  proof (cases "has_audio message")
    case True
    from handle_audio_chunk [OF assms True] show ?thesis by auto
  next
    case False
    have "base64Audio message \<noteq> Inl TypeError" using assms by (auto simp: handle_audio_def)
    from handle_audio_skip [OF False this] assms show ?thesis by simp
  qed
qed

lemma onmessage_interrupted:
  assumes "onmessage clk message s = Inr s'" and "message_interrupted message"
  shows "activeSourcesRef s' = []" and "nextStartTimeRef s' = 0"
    and "i \<in> set (activeSourcesRef s) \<Longrightarrow> node_stopped (nodes s' ! i)"
proof -
  from assms(1) obtain s1 where a: "handle_audio clk message s = Inr s1"
    and i: "handle_interrupts message (handle_turn_complete clk message (handle_transcriptions message s1)) = Inr s'"
    by (rule onmessage_Inr)
  from i assms(2) obtain ns where st: "stop_each (activeSourcesRef s1) (nodes s1) = Inr ns"
    and ns: "nodes s' = ns" and e: "activeSourcesRef s' = []" and z: "nextStartTimeRef s' = 0"
    unfolding handle_interrupts_def text_stages_audio_fields
    by (auto split: sum.splits)
  show "activeSourcesRef s' = []" by (rule e)
  show "nextStartTimeRef s' = 0" by (rule z)
  show "node_stopped (nodes s' ! i)" if "i \<in> set (activeSourcesRef s)"
  proof -
    from that handle_audio_active(1) [OF a] have "i \<in> set (activeSourcesRef s1)" by blast
    from stop_each_stopped [OF st this] ns show ?thesis by simp
  qed
qed

lemma onmessage_chunk_start:
  assumes "onmessage clk message s = Inr s'" and "has_audio message"
  shows "length (nodes s') = Suc (length (nodes s))"
    and "node_start (nodes s' ! length (nodes s)) = Some (max (nextStartTimeRef s) (currentTime clk))"
proof -
  from assms(1) obtain s1 where a: "handle_audio clk message s = Inr s1"
    and i: "handle_interrupts message (handle_turn_complete clk message (handle_transcriptions message s1)) = Inr s'"
    by (rule onmessage_Inr)
  from handle_audio_chunk [OF a assms(2)] obtain d where
    n: "nodes s1 = nodes s @ [started_node (max (nextStartTimeRef s) (currentTime clk)) d]"
    by auto
  have l1: "length (nodes s1) = Suc (length (nodes s))" by (simp add: n)
  have st: "node_start (nodes s1 ! length (nodes s)) = Some (max (nextStartTimeRef s) (currentTime clk))"
    by (simp add: n started_node_def)
  have "length (nodes s') = length (nodes s1)
      \<and> node_start (nodes s' ! length (nodes s)) = node_start (nodes s1 ! length (nodes s))"
  proof (cases "message_interrupted message")
    case False
    with i have "s' = handle_turn_complete clk message (handle_transcriptions message s1)"
      by (simp add: handle_interrupts_def)
    then show ?thesis by (simp add: text_stages_audio_fields)
  next
    case True
    with i obtain ns where s: "stop_each (activeSourcesRef s1) (nodes s1) = Inr ns" and ns: "nodes s' = ns"
      unfolding handle_interrupts_def text_stages_audio_fields by (auto split: sum.splits)
    have "length (nodes s) < length (nodes s1)" using l1 by simp
    from stop_each_length [OF s] stop_each_start [OF s this] ns show ?thesis by simp
  qed
  with l1 st show "length (nodes s') = Suc (length (nodes s))"
    and "node_start (nodes s' ! length (nodes s)) = Some (max (nextStartTimeRef s) (currentTime clk))"
    by simp_all
qed

text \<open>
  C2: when an Interrupted event is processed, every unit of the active set is stopped,
  the set is cleared and the cursor is reset to 0; the next chunk starts at
  \<open>max(0, currentOutputTime)\<close>, which is the current output time, whatever the cursor was
  before the interruption.
\<close>

theorem interrupted_stops_and_resets:
  assumes "onmessage clk message s = Inr s'" and "message_interrupted message"
  shows "(\<forall>i \<in> set (activeSourcesRef s). node_stopped (nodes s' ! i))
     \<and> activeSourcesRef s' = []
     \<and> nextStartTimeRef s' = 0
     \<and> (\<forall>clk2 message2 s''.
           onmessage clk2 message2 s' = Inr s'' \<and> has_audio message2 \<and> 0 \<le> currentTime clk2
           \<longrightarrow> length (nodes s'') = Suc (length (nodes s'))
               \<and> node_start (nodes s'' ! length (nodes s')) = Some (currentTime clk2))"
proof -
  note i = onmessage_interrupted [OF assms]
  have "length (nodes s'') = Suc (length (nodes s'))
      \<and> node_start (nodes s'' ! length (nodes s')) = Some (currentTime clk2)"
    if "onmessage clk2 message2 s' = Inr s''" and "has_audio message2" and "0 \<le> currentTime clk2"
    for clk2 message2 s''
    using onmessage_chunk_start [OF that(1,2)] that(3) i(2) by simp
  with i show ?thesis by blast
qed


lemma onmessage_interrupted_playing:
  "onmessage (clock_at 2) interrupted_message playing_state
     = Inr (playing_state\<lparr>nodes := [(started_node 0 10)\<lparr>node_stopped := True\<rparr>],
              activeSourcesRef := [], nextStartTimeRef := 0\<rparr>)"
  by (simp add: onmessage_def handle_audio_def base64Audio_def interrupted_message_def
      no_content_def handle_transcriptions_def message_outputTranscription_def
      message_inputTranscription_def handle_turn_complete_def message_turnComplete_def
      handle_interrupts_def message_interrupted_def playing_state_def initial_state_def
      node_stop_def started_node_def)

theorem interrupted_stops_and_resets_witness:
  "onmessage (clock_at 2) interrupted_message playing_state
     = Inr (playing_state\<lparr>nodes := [(started_node 0 10)\<lparr>node_stopped := True\<rparr>],
              activeSourcesRef := [], nextStartTimeRef := 0\<rparr>)
   \<and> message_interrupted interrupted_message
   \<and> activeSourcesRef playing_state = [0]
   \<and> nextStartTimeRef playing_state = 10
   \<and> node_stopped (nodes (playing_state\<lparr>nodes := [(started_node 0 10)\<lparr>node_stopped := True\<rparr>],
              activeSourcesRef := [], nextStartTimeRef := 0\<rparr>) ! 0)
   \<and> (\<exists>s''. onmessage (clock_at 3) (audio_message (Some one_sample))
               (playing_state\<lparr>nodes := [(started_node 0 10)\<lparr>node_stopped := True\<rparr>],
                  activeSourcesRef := [], nextStartTimeRef := 0\<rparr>) = Inr s''
            \<and> node_start (nodes s'' ! 1) = Some 3)"
proof -
  let ?s' = "playing_state\<lparr>nodes := [(started_node 0 10)\<lparr>node_stopped := True\<rparr>],
              activeSourcesRef := [], nextStartTimeRef := 0\<rparr>"
  have h1: "onmessage (clock_at 2) interrupted_message playing_state = Inr ?s'"
    by (rule onmessage_interrupted_playing)
  have h2: "message_interrupted interrupted_message"
    by (simp add: message_interrupted_def interrupted_message_def no_content_def)
  have p: "activeSourcesRef playing_state = [0]" "nextStartTimeRef playing_state = 10"
    by (simp_all add: playing_state_def)
  note t = interrupted_stops_and_resets [OF h1 h2]
  from t p have 1: "node_stopped (nodes ?s' ! 0)" by simp
  have c: "0 \<le> currentTime (clock_at 3)" by (simp add: clock_at_def)
  obtain s'' where n: "onmessage (clock_at 3) (audio_message (Some one_sample)) ?s' = Inr s''"
    using onmessage_one_sample [OF c] by blast
  from t n has_audio_one_sample c
  have "node_start (nodes s'' ! length (nodes ?s')) = Some (currentTime (clock_at 3))"
    by blast
  then have 2: "node_start (nodes s'' ! 1) = Some 3" by (simp add: clock_at_def)
  from h1 h2 p 1 n 2 show ?thesis by blast
qed

section \<open>Turn boundaries and transcript fragments\<close>

text \<open>
  C4: on a TurnComplete, both buffers (as they are after the fragment of the same
  message, if any, has been appended) are trimmed; one entry is appended per non-empty
  trimmed buffer, the user's first and the model's second; with both buffers empty no
  entry is appended; afterwards both buffers are empty.
\<close>

theorem turn_complete_commits:
  assumes "onmessage clk message s = Inr s'" and "message_turnComplete message"
  shows "let b = handle_transcriptions message s;
             userText = trim (currentInputTranscriptionRef b);
             modelText = trim (currentOutputTranscriptionRef b)
         in transcriptions s' = transcriptions s
              @ (if userText \<noteq> [] then [\<lparr>role = user, entry_text = userText, timestamp = date clk\<rparr>] else [])
              @ (if modelText \<noteq> [] then [\<lparr>role = model, entry_text = modelText, timestamp = date clk\<rparr>] else [])
            \<and> currentInputTranscriptionRef s' = []
            \<and> currentOutputTranscriptionRef s' = []
            \<and> (message_outputTranscription message = None \<and> message_inputTranscription message = None
                 \<longrightarrow> b = s)
            \<and> (currentInputTranscriptionRef b = [] \<and> currentOutputTranscriptionRef b = []
                 \<longrightarrow> transcriptions s' = transcriptions s)"
proof -
  have tr: "transcriptions (handle_transcriptions message s) = transcriptions s"
    by (simp add: handle_transcriptions_def split: option.splits)
  have "trim [] = []" by (simp add: trim_def)
  then show ?thesis
    using onmessage_text_fields(1-3) [OF assms(1)] assms(2) tr
    by (auto simp: Let_def handle_turn_complete_def handle_transcriptions_def)
qed

lemma onmessage_turn_complete_example:
  "onmessage (clock_at 0) turn_complete_message
      (initial_state\<lparr>currentInputTranscriptionRef := [32, 72, 105, 32],
                     currentOutputTranscriptionRef := [79, 75, 10]\<rparr>)
     = Inr (initial_state\<lparr>transcriptions :=
              [\<lparr>role = user, entry_text = [72, 105], timestamp = 0\<rparr>,
               \<lparr>role = model, entry_text = [79, 75], timestamp = 0\<rparr>]\<rparr>)"
  by (simp add: onmessage_def handle_audio_def base64Audio_def turn_complete_message_def no_content_def
     handle_transcriptions_def message_outputTranscription_def message_inputTranscription_def
     handle_turn_complete_def message_turnComplete_def trim_def js_whitespace_def handle_interrupts_def
     message_interrupted_def initial_state_def clock_at_def Let_def)

theorem turn_complete_commits_witness:
  "onmessage (clock_at 0) turn_complete_message
      (initial_state\<lparr>currentInputTranscriptionRef := [32, 72, 105, 32],
                     currentOutputTranscriptionRef := [79, 75, 10]\<rparr>)
     = Inr (initial_state\<lparr>transcriptions :=
              [\<lparr>role = user, entry_text = [72, 105], timestamp = 0\<rparr>,
               \<lparr>role = model, entry_text = [79, 75], timestamp = 0\<rparr>]\<rparr>)
   \<and> message_turnComplete turn_complete_message
   \<and> transcriptions (initial_state\<lparr>transcriptions :=
              [\<lparr>role = user, entry_text = [72, 105], timestamp = 0\<rparr>,
               \<lparr>role = model, entry_text = [79, 75], timestamp = 0\<rparr>]\<rparr>)
      = transcriptions initial_state
         @ [\<lparr>role = user, entry_text = trim [32, 72, 105, 32], timestamp = 0\<rparr>]
         @ [\<lparr>role = model, entry_text = trim [79, 75, 10], timestamp = 0\<rparr>]
   \<and> currentInputTranscriptionRef (initial_state\<lparr>transcriptions :=
              [\<lparr>role = user, entry_text = [72, 105], timestamp = 0\<rparr>,
               \<lparr>role = model, entry_text = [79, 75], timestamp = 0\<rparr>]\<rparr>) = []"
proof -
  have h2: "message_turnComplete turn_complete_message"
    by (simp add: message_turnComplete_def turn_complete_message_def no_content_def)
  have t: "trim [32, 72, 105, 32] = [72, 105]" "trim [79, 75, 10] = [79, 75]"
    by (simp_all add: trim_def js_whitespace_def)
  show ?thesis
    using turn_complete_commits [OF onmessage_turn_complete_example h2]
      onmessage_turn_complete_example h2 t
    by (simp add: Let_def handle_transcriptions_def message_outputTranscription_def
        message_inputTranscription_def turn_complete_message_def no_content_def
        initial_state_def clock_at_def)
qed







section \<open>Malformed messages\<close>

text \<open>
  C7 fails on the code: a model turn without \<open>parts\<close> makes the handler throw a
  TypeError at line 154, a payload that is not base64 an InvalidCharacterError in
  \<open>atob\<close>, and a payload of an odd number of bytes a RangeError in \<open>decodeAudioData\<close>;
  the handler has no \<open>try\<close>. An absent message content, an empty \<open>parts\<close> array, an
  absent or empty \<open>data\<close> are skipped.
\<close>

theorem malformed_message_outcomes:
  "onmessage clk partless_message s = Inl TypeError
   \<and> onmessage clk (audio_message (Some [33])) s = Inl InvalidCharacterError
   \<and> onmessage clk (audio_message (Some [65, 65, 61, 61])) s = Inl RangeError
   \<and> onmessage clk \<lparr>serverContent = None\<rparr> s = Inr s
   \<and> onmessage clk \<lparr>serverContent = Some (no_content\<lparr>modelTurn := Some \<lparr>parts = Some []\<rparr>\<rparr>)\<rparr> s = Inr s
   \<and> onmessage clk (audio_message None) s = Inr s
   \<and> onmessage clk (audio_message (Some [])) s = Inr s"
proof -
  have 1: "onmessage clk partless_message s = Inl TypeError"
    by (simp add: onmessage_def handle_audio_def base64Audio_def partless_message_def no_content_def)
  have 2: "onmessage clk (audio_message (Some [33])) s = Inl InvalidCharacterError"
    by (simp add: onmessage_def handle_audio_def base64Audio_audio_message decode_def atob_def
        ascii_whitespace_def strip_padding_def b64_index_def Let_def)
  have 3: "onmessage clk (audio_message (Some [65, 65, 61, 61])) s = Inl RangeError"
    by (simp add: onmessage_def handle_audio_def base64Audio_audio_message decode_def atob_def
        ascii_whitespace_def strip_padding_def b64_index_def decodeAudioData_def Let_def)
  have 4: "onmessage clk \<lparr>serverContent = None\<rparr> s = Inr s"
    by (simp add: onmessage_def handle_audio_def base64Audio_def handle_transcriptions_def
        message_outputTranscription_def message_inputTranscription_def handle_turn_complete_def
        message_turnComplete_def handle_interrupts_def message_interrupted_def)
  have 5: "onmessage clk \<lparr>serverContent = Some (no_content\<lparr>modelTurn := Some \<lparr>parts = Some []\<rparr>\<rparr>)\<rparr> s = Inr s"
    by (simp add: onmessage_def handle_audio_def base64Audio_def handle_transcriptions_def
        message_outputTranscription_def message_inputTranscription_def handle_turn_complete_def
        message_turnComplete_def handle_interrupts_def message_interrupted_def no_content_def)
  have 6: "onmessage clk (audio_message b) s = Inr s" if "b = None \<or> b = Some []" for b
    using that
    by (auto simp: onmessage_def handle_audio_def base64Audio_audio_message
        handle_transcriptions_def handle_turn_complete_def handle_interrupts_def
        audio_message_flags)
  from 1 2 3 4 5 6 show ?thesis by simp
qed


section \<open>The active units have been started\<close>

lemma active_started_handle_audio:
  assumes "active_started s" and "handle_audio clk message s = Inr s1"
  shows "active_started s1"
proof (cases "has_audio message")
  case True
  from handle_audio_chunk [OF assms(2) True] obtain d where
    s1: "nodes s1 = nodes s @ [started_node (max (nextStartTimeRef s) (currentTime clk)) d]"
      "activeSourcesRef s1 = set_add (length (nodes s)) (activeSourcesRef s)"
    by auto
  have "i < length (nodes s1) \<and> node_start (nodes s1 ! i) \<noteq> None"
    if "i \<in> set (activeSourcesRef s1)" for i
  proof (cases "i = length (nodes s)")
    case True
    then show ?thesis by (simp add: s1 started_node_def)
  next
    case False
    with that have "i \<in> set (activeSourcesRef s)" by (simp add: s1 set_add_set)
    with assms(1) have "i < length (nodes s) \<and> node_start (nodes s ! i) \<noteq> None"
      by (simp add: active_started_def list_all_iff)
    then show ?thesis by (simp add: s1 nth_append)
  qed
  then show ?thesis by (simp add: active_started_def list_all_iff)
next
  case False
  have "base64Audio message \<noteq> Inl TypeError" using assms(2) by (auto simp: handle_audio_def)
  from handle_audio_skip [OF False this] assms show ?thesis by simp
qed

lemma active_started_text_stages:
  "active_started (handle_turn_complete clk message (handle_transcriptions message s))
     = active_started s"
  by (simp add: active_started_def text_stages_audio_fields)

lemma handle_interrupts_total:
  assumes "active_started s"
  shows "\<exists>s'. handle_interrupts message s = Inr s' \<and> active_started s'"
proof (cases "message_interrupted message")
  case True
  obtain ns where "stop_each (activeSourcesRef s) (nodes s) = Inr ns"
    using stop_each_total assms unfolding active_started_def by blast
  with True show ?thesis by (simp add: handle_interrupts_def active_started_def)
next
  case False
  with assms show ?thesis by (simp add: handle_interrupts_def)
qed

lemma onmessage_total:
  assumes "active_started s" and "handle_audio clk message s = Inr s1"
  shows "\<exists>s'. onmessage clk message s = Inr s' \<and> active_started s'"
proof -
  have "active_started (handle_turn_complete clk message (handle_transcriptions message s1))"
    using active_started_handle_audio [OF assms] by (simp add: active_started_text_stages)
  from handle_interrupts_total [OF this, of message] assms(2) show ?thesis
    by (simp add: onmessage_def)
qed

lemma active_started_onmessage:
  assumes "active_started s" and "onmessage clk message s = Inr s'"
  shows "active_started s'"
proof -
  from assms(2) obtain s1 where "handle_audio clk message s = Inr s1"
    by (rule onmessage_Inr)
  from onmessage_total [OF assms(1) this] assms(2) show ?thesis by simp
qed

lemma active_started_stopConversation:
  "stopConversation s = Inr s1 \<Longrightarrow> active_started s1"
  by (auto simp: stopConversation_eq stopped_state_def active_started_def split: sum.splits)

lemma active_started_sendTextMessage:
  "active_started s \<Longrightarrow> sendTextMessage clk txt s = Inr s' \<Longrightarrow> active_started s'"
  by (auto simp: sendTextMessage_def active_started_def split: option.splits if_splits)

lemma active_started_onclose: "active_started (onclose s) = active_started s"
  by (simp add: onclose_def active_started_def)

lemma active_started_source_ended: "active_started s \<Longrightarrow> active_started (source_ended i s)"
  by (simp add: source_ended_def active_started_def list_all_iff)


text \<open>
  Hence the invariant holds in every state of the component, and neither \<open>stop()\<close>, nor
  the error callback, nor the handler of a message without a chunk throws there.
\<close>


lemma reachable_active_started: "reachable s \<Longrightarrow> active_started s"
proof (induction rule: reachable.induct)
  case init
  show ?case by (simp add: active_started_def initial_state_def)
next
  case (errored s s')
  then show ?case by (simp add: onerror_def active_started_stopConversation)
next
  case (stopped s s')
  then show ?case by (simp add: active_started_stopConversation)
next
  case (received s clk message s')
  then show ?case by (simp add: active_started_onmessage)
next
  case (ended s i)
  then show ?case by (simp add: active_started_source_ended)
next
  case (sent s clk t s')
  then show ?case by (simp add: active_started_sendTextMessage)
qed (simp_all add: active_started_def start_requested_def microphone_granted_def
      session_resolved_def start_failed_def onopen_def onclose_def clearHistory_def)

lemma reachable_never_throws:
  assumes "reachable s"
  shows "\<exists>s1. stopConversation s = Inr s1" and "\<exists>s1. onerror s = Inr s1"
    and "\<not> has_audio message \<Longrightarrow> base64Audio message \<noteq> Inl TypeError
           \<Longrightarrow> \<exists>s'. onmessage clk message s = Inr s'"
proof -
  note a = reachable_active_started [OF assms]
  from stop_each_total a obtain ns where ns: "stop_each (activeSourcesRef s) (nodes s) = Inr ns"
    unfolding active_started_def by blast
  then show "\<exists>s1. stopConversation s = Inr s1" by (simp add: stopConversation_eq)
  from ns show "\<exists>s1. onerror s = Inr s1" by (simp add: onerror_def stopConversation_eq)
  show "\<exists>s'. onmessage clk message s = Inr s'"
    if "\<not> has_audio message" and "base64Audio message \<noteq> Inl TypeError"
    using onmessage_total [OF a handle_audio_skip [OF that]] by blast
qed

section \<open>Stopping twice, and the error callback\<close>

lemma stop_each_playing:
  "stop_each (activeSourcesRef playing_state) (nodes playing_state)
     = Inr [(started_node 0 10)\<lparr>node_stopped := True\<rparr>]"
  by (simp add: playing_state_def initial_state_def node_stop_def started_node_def)

lemma active_started_playing: "active_started playing_state"
  by (simp add: active_started_def playing_state_def initial_state_def started_node_def)

lemma active_started_initial: "active_started initial_state"
  by (simp add: active_started_def initial_state_def)

text \<open>
  C9: in a state whose active units have all been started (every reachable
  state, by \<open>reachable_active_started\<close>), \<open>stop()\<close> returns; its end state has
  the connection closed and forgotten, the microphone released, the active set empty
  and every unit of it stopped, the state Disconnected; and \<open>stop()\<close> called again
  returns the same state.
\<close>

theorem stop_idempotent:
  assumes "active_started s"
  shows "\<exists>s1. stopConversation s = Inr s1
     \<and> stopConversation s1 = Inr s1
     \<and> sessionRef s1 = None \<and> micStreamRef s1 = None
     \<and> activeSourcesRef s1 = []
     \<and> connectionState s1 = DISCONNECTED \<and> \<not> isListening s1
     \<and> (\<forall>c. sessionRef s = Some c \<longrightarrow> c \<in> closedSessions s1)
     \<and> (\<forall>m. micStreamRef s = Some m \<longrightarrow> m \<in> stoppedStreams s1)
     \<and> (\<forall>i \<in> set (activeSourcesRef s). node_stopped (nodes s1 ! i))"
proof -
  obtain ns where ns: "stop_each (activeSourcesRef s) (nodes s) = Inr ns"
    using stop_each_total assms unfolding active_started_def by blast
  let ?s1 = "stopped_state s ns"
  have 1: "stopConversation s = Inr ?s1" by (simp add: stopConversation_eq ns)
  have 2: "stopConversation ?s1 = Inr ?s1" by (rule stopConversation_twice [OF 1])
  have 3: "\<forall>i \<in> set (activeSourcesRef s). node_stopped (nodes ?s1 ! i)"
    using stop_each_stopped [OF ns] by (simp add: stopped_state_def)
  have 4: "sessionRef ?s1 = None \<and> micStreamRef ?s1 = None \<and> activeSourcesRef ?s1 = []
      \<and> connectionState ?s1 = DISCONNECTED \<and> \<not> isListening ?s1"
    by (simp add: stopped_state_def)
  have 5: "\<forall>c. sessionRef s = Some c \<longrightarrow> c \<in> closedSessions ?s1"
    "\<forall>m. micStreamRef s = Some m \<longrightarrow> m \<in> stoppedStreams ?s1"
    by (simp_all add: stopped_state_def)
  from 1 2 3 4 5 show ?thesis by blast
qed

theorem stop_idempotent_witness:
  "active_started playing_state
   \<and> (\<exists>s1. stopConversation playing_state = Inr s1 \<and> stopConversation s1 = Inr s1
          \<and> connectionState s1 = DISCONNECTED \<and> sessionRef s1 = None \<and> node_stopped (nodes s1 ! 0))
   \<and> active_started initial_state
   \<and> (\<exists>s1. stopConversation initial_state = Inr s1 \<and> stopConversation s1 = Inr s1)"
proof -
  have a: "0 \<in> set (activeSourcesRef playing_state)" by (simp add: playing_state_def)
  from stop_idempotent [OF active_started_playing] a
  have 1: "\<exists>s1. stopConversation playing_state = Inr s1 \<and> stopConversation s1 = Inr s1
          \<and> connectionState s1 = DISCONNECTED \<and> sessionRef s1 = None \<and> node_stopped (nodes s1 ! 0)"
    by blast
  from stop_idempotent [OF active_started_initial]
  have 2: "\<exists>s1. stopConversation initial_state = Inr s1 \<and> stopConversation s1 = Inr s1"
    by blast
  from 1 2 active_started_playing active_started_initial show ?thesis by blast
qed

text \<open>
  C3 fails on the code: \<open>onerror\<close> sets the state to Error and then calls
  \<open>stopConversation\<close>, whose last state update is Disconnected. The cleanup is that of
  \<open>stop()\<close>, the end state is Disconnected and not Error.
\<close>

theorem onerror_ends_disconnected:
  "onerror s = stopConversation s
   \<and> (\<forall>s'. onerror s = Inr s' \<longrightarrow> connectionState s' = DISCONNECTED \<and> connectionState s' \<noteq> ERROR)"
proof -
  have "stopped_state (s\<lparr>connectionState := ERROR\<rparr>) ns = stopped_state s ns" for ns
    by (cases "sessionRef s"; cases "micStreamRef s"; simp add: stopped_state_def)
  then have 1: "onerror s = stopConversation s"
    by (simp add: onerror_def stopConversation_eq split: sum.splits)
  have "connectionState s' = DISCONNECTED" if "stopConversation s = Inr s'" for s'
    using that by (auto simp: stopConversation_eq stopped_state_def split: sum.splits)
  with 1 show ?thesis by simp
qed

theorem onerror_ends_disconnected_witness:
  "connectionState playing_state = CONNECTED
   \<and> onerror playing_state = Inr (stopped_state playing_state [(started_node 0 10)\<lparr>node_stopped := True\<rparr>])
   \<and> connectionState (stopped_state playing_state [(started_node 0 10)\<lparr>node_stopped := True\<rparr>])
       = DISCONNECTED"
proof -
  let ?s' = "stopped_state playing_state [(started_node 0 10)\<lparr>node_stopped := True\<rparr>]"
  have c: "connectionState playing_state = CONNECTED" by (simp add: playing_state_def)
  have e: "onerror playing_state = Inr ?s'"
    using onerror_ends_disconnected [of playing_state]
    by (simp add: stopConversation_eq stop_each_playing)
  from onerror_ends_disconnected [of playing_state] e
  have "connectionState ?s' = DISCONNECTED" by blast
  with c e show ?thesis by blast
qed

section \<open>Sending text\<close>

lemma send_not_a_method: "''send'' \<notin> set session_methods"
  by (simp add: session_methods_def)

lemma reachable_connected_without_session:
  "reachable (onopen (microphone_granted 0 (start_requested initial_state)))
   \<and> connectionState (onopen (microphone_granted 0 (start_requested initial_state))) = CONNECTED
   \<and> sessionRef (onopen (microphone_granted 0 (start_requested initial_state))) = None"
proof -
  have "reachable (onopen (microphone_granted 0 (start_requested initial_state)))"
    by (intro reachable.opened reachable.granted reachable.requested reachable.init)
  then show ?thesis
    by (simp add: onopen_def microphone_granted_def start_requested_def initial_state_def)
qed

text \<open>
  C10 fails on the code in its second half. \<open>sendText\<close> while the state is not
  Connected, or while no connection is stored, changes nothing: nothing is sent and no
  entry is appended. While Connected with a connection stored, line 99 calls
  \<open>send\<close>, which the stored \<open>Session\<close> does not have: the function throws a TypeError,
  nothing is sent and no entry is appended.
\<close>

theorem sendText_guard:
  "(connectionState s \<noteq> CONNECTED \<longrightarrow> sendTextMessage clk txt s = Inr s)
   \<and> (sessionRef s = None \<longrightarrow> sendTextMessage clk txt s = Inr s)
   \<and> (connectionState s = CONNECTED \<and> sessionRef s = Some c
        \<longrightarrow> sendTextMessage clk txt s = Inl TypeError)"
  by (simp add: sendTextMessage_def send_not_a_method split: option.splits)

theorem sendText_guard_witness:
  "connectionState initial_state \<noteq> CONNECTED
   \<and> sendTextMessage (clock_at 0) [72, 105] initial_state = Inr initial_state
   \<and> connectionState playing_state = CONNECTED \<and> sessionRef playing_state = Some 0
   \<and> sendTextMessage (clock_at 0) [72, 105] playing_state = Inl TypeError"
proof -
  have d: "connectionState initial_state \<noteq> CONNECTED" by (simp add: initial_state_def)
  have c: "connectionState playing_state = CONNECTED" "sessionRef playing_state = Some 0"
    by (simp_all add: playing_state_def)
  from sendText_guard [of initial_state "clock_at 0" "[72, 105]"] d
  have 1: "sendTextMessage (clock_at 0) [72, 105] initial_state = Inr initial_state" by blast
  from sendText_guard [of playing_state "clock_at 0" "[72, 105]" 0] c
  have 2: "sendTextMessage (clock_at 0) [72, 105] playing_state = Inl TypeError" by blast
  from d c 1 2 show ?thesis by blast
qed

end
